theory Spec2Isabelle
  imports Complex_Main "HOL-Library.AList"
begin

section \<open>Values shared by the model\<close>

text \<open>
  The model follows \<^verbatim>\<open>src/ui.py\<close> (class \<^verbatim>\<open>JellyseerrUI\<close>),
  \<^verbatim>\<open>src/jellyseerr_api.py\<close> (\<^verbatim>\<open>download_image\<close>) and the constants of
  \<^verbatim>\<open>src/config.py\<close>. Python exceptions are values of \<open>py_error\<close>; a function that can
  raise returns \<open>py_error + 'a\<close> with \<open>Inl\<close> for the exception. Clock readings
  (\<^verbatim>\<open>time.time()\<close>) are arguments of type \<open>real\<close>.
\<close>

datatype py_error =
    StopIteration
  | IndexError
  | RequestException
  | ValueError
  | OSError
  | PygameError
  | OtherException

type_synonym bytes = string

text \<open>A decoded \<^verbatim>\<open>pygame.Surface\<close>, identified by its pixel data.\<close>

datatype surface = Surface bytes

text \<open>A value stored in a media dictionary returned by the API.\<close>

datatype jvalue = JNone | JInt int | JStr string

text \<open>A media item is a Python \<^verbatim>\<open>dict\<close>; the empty dictionary is falsy.\<close>

type_synonym media = "(string \<times> jvalue) list"

type_synonym color = "nat \<times> nat \<times> nat"

text \<open>
  A background thread started by \<^verbatim>\<open>perform_search\<close> (with the query it captured) or by
  \<^verbatim>\<open>load_popular_content\<close>.
\<close>

datatype thread = PerformSearch string | LoadPopularContent

subsection \<open>Constants of config.py\<close>

definition COLOR_PRIMARY :: color where "COLOR_PRIMARY = (100, 200, 255)"
definition COLOR_TEXT :: color where "COLOR_TEXT = (240, 240, 240)"
definition COLOR_SUCCESS :: color where "COLOR_SUCCESS = (100, 255, 100)"
definition COLOR_ERROR :: color where "COLOR_ERROR = (255, 100, 100)"
definition NAV_DELAY :: real where "NAV_DELAY = 0.15"
definition CONTROLLER_DEADZONE :: real where "CONTROLLER_DEADZONE = 0.35"
definition MAX_BROWSE_ITEMS_PER_TYPE :: nat where "MAX_BROWSE_ITEMS_PER_TYPE = 10"
definition MAX_IMAGE_CACHE_SIZE :: int where "MAX_IMAGE_CACHE_SIZE = 50"
definition MAX_IMAGE_DOWNLOAD_SIZE :: int where "MAX_IMAGE_DOWNLOAD_SIZE = 5 * 1024 * 1024"

section \<open>The state of JellyseerrUI\<close>

text \<open>
  The attributes set in \<^verbatim>\<open>__init__\<close> that the input handlers, the background threads
  and the image cache read or write. \<open>image_cache\<close> is the \<^verbatim>\<open>OrderedDict\<close> as
  the list of its items in iteration order (oldest first). \<open>joystick\<close> tells whether
  a controller is attached; \<open>threads\<close> lists the background threads that were started
  and have not yet run their body.
\<close>

record ui =
  running :: bool
  joystick :: bool
  last_nav_time :: real
  current_screen :: string
  screen_stack :: "string list"
  menu_items :: "string list"
  selected_index :: int
  message :: "string option"
  message_color :: color
  message_time :: real
  scheduled_back_time :: "real option"
  search_query :: string
  search_results :: "media list"
  keyboard_layout :: "string list list"
  keyboard_row :: int
  keyboard_col :: int
  browse_results :: "media list"
  browse_page :: int
  browse_type :: "string option"
  selected_media :: "media option"
  image_cache :: "(string \<times> surface) list"
  max_cache_size :: int
  placeholder_image :: surface
  threads :: "thread list"

definition keyboard_layout_init :: "string list list" where
  "keyboard_layout_init =
    [[''a'', ''b'', ''c'', ''d'', ''e'', ''f'', ''g'', ''h'', ''i'', ''j''],
     [''k'', ''l'', ''m'', ''n'', ''o'', ''p'', ''q'', ''r'', ''s'', ''t''],
     [''u'', ''v'', ''w'', ''x'', ''y'', ''z'', ''1'', ''2'', ''3'', ''4''],
     [''5'', ''6'', ''7'', ''8'', ''9'', ''0'', '' '', ''DEL'', ''SEARCH'', ''CANCEL'']]"

text \<open>The state \<^verbatim>\<open>__init__\<close> builds, given the placeholder surface and the controller probe.\<close>

definition init :: "surface \<Rightarrow> bool \<Rightarrow> ui" where
  "init placeholder has_joystick =
    \<lparr> running = True, joystick = has_joystick, last_nav_time = 0,
      current_screen = ''main_menu'', screen_stack = [], menu_items = [],
      selected_index = 0, message = None, message_color = COLOR_TEXT, message_time = 0,
      scheduled_back_time = None, search_query = '''', search_results = [],
      keyboard_layout = keyboard_layout_init, keyboard_row = 0, keyboard_col = 0,
      browse_results = [], browse_page = 1, browse_type = None, selected_media = None,
      image_cache = [], max_cache_size = MAX_IMAGE_CACHE_SIZE,
      placeholder_image = placeholder, threads = [] \<rparr>"

section \<open>Image download (jellyseerr_api.py, download_image)\<close>

text \<open>
  The \<^verbatim>\<open>content-length\<close> header as \<^verbatim>\<open>download_image\<close> reads it: absent or empty
  (falsy), present but not an integer (\<^verbatim>\<open>int()\<close> raises \<^verbatim>\<open>ValueError\<close>), or an integer.
\<close>

datatype content_length = NoLength | BadLength | Length int

text \<open>
  One \<^verbatim>\<open>session.get(url, stream=True)\<close>: either the call or \<^verbatim>\<open>raise_for_status\<close>
  raises, or there is a response with its header, the chunks \<^verbatim>\<open>iter_content\<close> yields and
  the exception that ends the stream early, if any.
\<close>

datatype http_outcome =
    GetRaises py_error
  | Response content_length "bytes list" "py_error option"

text \<open>The chunk loop: the running total is checked before a chunk is kept.\<close>

fun read_chunks :: "bytes list \<Rightarrow> py_error option \<Rightarrow> bytes list \<Rightarrow> int \<Rightarrow> py_error + bytes option" where
  "read_chunks [] None chunks total_size = Inr (Some (concat chunks))"
| "read_chunks [] (Some e) chunks total_size = Inl e"
| "read_chunks (chunk # rest) e chunks total_size =
     (let total_size = total_size + int (length chunk) in
      if total_size > MAX_IMAGE_DOWNLOAD_SIZE then Inr None
      else read_chunks rest e (chunks @ [chunk]) total_size)"

text \<open>The body of the \<^verbatim>\<open>try\<close> of one attempt.\<close>

definition download_attempt :: "http_outcome \<Rightarrow> py_error + bytes option" where
  "download_attempt r =
    (case r of
       GetRaises e \<Rightarrow> Inl e
     | Response cl body e \<Rightarrow>
         (case cl of
            BadLength \<Rightarrow> Inl ValueError
          | Length n \<Rightarrow>
              if n > MAX_IMAGE_DOWNLOAD_SIZE then Inr None else read_chunks body e [] 0
          | NoLength \<Rightarrow> read_chunks body e [] 0))"

definition max_retries :: nat where "max_retries = 3"

text \<open>
  \<^verbatim>\<open>for attempt in range(max_retries)\<close>: only \<^verbatim>\<open>RequestException\<close> is caught and
  retried; on the last attempt it gives \<^verbatim>\<open>None\<close>. Any other exception leaves
  \<^verbatim>\<open>download_image\<close>. The second argument is the attempt number, the third the
  number of attempts left.
\<close>

fun download_loop :: "(nat \<Rightarrow> http_outcome) \<Rightarrow> nat \<Rightarrow> nat \<Rightarrow> py_error + bytes option" where
  "download_loop get attempt 0 = Inr None"
| "download_loop get attempt (Suc n) =
     (case download_attempt (get attempt) of
        Inr r \<Rightarrow> Inr r
      | Inl e \<Rightarrow>
          if e = RequestException then
            (if attempt = max_retries - 1 then Inr None
             else download_loop get (Suc attempt) n)
          else Inl e)"

definition download_image :: "(string \<Rightarrow> nat \<Rightarrow> http_outcome) \<Rightarrow> string \<Rightarrow> py_error + bytes option" where
  "download_image session_get url = download_loop (session_get url) 0 max_retries"

section \<open>The image cache (ui.py, load_image and _add_to_cache)\<close>

text \<open>What a decoder does with the downloaded bytes.\<close>

datatype decode_result = Decoded surface | DecodeRaises py_error

text \<open>
  The collaborators of \<^verbatim>\<open>load_image\<close>: the HTTP session (the outcome of the n-th
  \<^verbatim>\<open>get\<close> for a URL), \<^verbatim>\<open>pygame.image.load\<close> followed by \<^verbatim>\<open>pygame.transform.scale\<close>,
  the module flag \<^verbatim>\<open>PIL_AVAILABLE\<close>, and the PIL route (\<^verbatim>\<open>Image.open\<close>, \<^verbatim>\<open>resize\<close>,
  \<^verbatim>\<open>tobytes\<close>, \<^verbatim>\<open>pygame.image.fromstring\<close>).
\<close>

record image_env =
  session_get :: "string \<Rightarrow> nat \<Rightarrow> http_outcome"
  pygame_load :: "bytes \<Rightarrow> decode_result"
  PIL_AVAILABLE :: bool
  pil_load :: "bytes \<Rightarrow> decode_result"

text \<open>
  \<^verbatim>\<open>_add_to_cache\<close>. When the cache is full, \<^verbatim>\<open>next(iter(self.image_cache))\<close> raises
  \<^verbatim>\<open>StopIteration\<close> on an empty dictionary, before anything is changed; otherwise the
  first item is popped. \<^verbatim>\<open>self.image_cache[url] = image\<close> replaces the value of a
  present key in place and appends a new key at the end, which is \<open>AList.update\<close>.
\<close>

definition add_to_cache :: "string \<Rightarrow> surface \<Rightarrow> ui \<Rightarrow> py_error + ui" where
  "add_to_cache url img s =
    (if int (length (image_cache s)) \<ge> max_cache_size s then
       (case image_cache s of
          [] \<Rightarrow> Inl StopIteration
        | oldest # rest \<Rightarrow> Inr (s\<lparr>image_cache := AList.update url img rest\<rparr>))
     else Inr (s\<lparr>image_cache := AList.update url img (image_cache s)\<rparr>))"

text \<open>\<^verbatim>\<open>OrderedDict.move_to_end(url)\<close> for a key that is present with value \<open>v\<close>.\<close>

definition move_to_end :: "string \<Rightarrow> surface \<Rightarrow> (string \<times> surface) list \<Rightarrow> (string \<times> surface) list" where
  "move_to_end url v d = AList.delete url d @ [(url, v)]"

text \<open>The exceptions caught by \<^verbatim>\<open>except (pygame.error, IOError, OSError)\<close>;
  \<^verbatim>\<open>RequestException\<close> is a subclass of \<^verbatim>\<open>IOError\<close>.\<close>

definition caught_pygame :: "py_error \<Rightarrow> bool" where
  "caught_pygame e = (e = PygameError \<or> e = OSError \<or> e = RequestException)"

text \<open>The exceptions caught by \<^verbatim>\<open>except (IOError, OSError, ValueError)\<close>.\<close>

definition caught_pil :: "py_error \<Rightarrow> bool" where
  "caught_pil e = (e = OSError \<or> e = RequestException \<or> e = ValueError)"

text \<open>Decode with one decoder, then add to the cache; both inside the same \<^verbatim>\<open>try\<close>.\<close>

definition decode_and_cache :: "(bytes \<Rightarrow> decode_result) \<Rightarrow> string \<Rightarrow> bytes \<Rightarrow> ui \<Rightarrow> py_error + (surface \<times> ui)" where
  "decode_and_cache decoder url image_data s =
    (case decoder image_data of
       DecodeRaises e \<Rightarrow> Inl e
     | Decoded pygame_image \<Rightarrow>
         (case add_to_cache url pygame_image s of
            Inl e \<Rightarrow> Inl e
          | Inr s' \<Rightarrow> Inr (pygame_image, s')))"

text \<open>
  The outer \<^verbatim>\<open>try\<close> of \<^verbatim>\<open>load_image\<close> on a cache miss: \<open>Inr (Some (image, s'))\<close> when
  an image is returned from inside it, \<open>Inr None\<close> when control falls through to the
  placeholder, \<open>Inl e\<close> when an exception reaches \<^verbatim>\<open>except Exception\<close>.
\<close>

definition load_image_try :: "image_env \<Rightarrow> string \<Rightarrow> ui \<Rightarrow> py_error + (surface \<times> ui) option" where
  "load_image_try env url s =
    (case download_image (session_get env) url of
       Inl e \<Rightarrow> Inl e
     | Inr None \<Rightarrow> Inr None
     | Inr (Some image_data) \<Rightarrow>
         if image_data = [] then Inr None
         else
           (case decode_and_cache (pygame_load env) url image_data s of
              Inr r \<Rightarrow> Inr (Some r)
            | Inl e \<Rightarrow>
                if caught_pygame e then
                  (if PIL_AVAILABLE env then
                     (case decode_and_cache (pil_load env) url image_data s of
                        Inr r \<Rightarrow> Inr (Some r)
                      | Inl e' \<Rightarrow> if caught_pil e' then Inr None else Inl e')
                   else Inr None)
                else Inl e))"

text \<open>
  \<^verbatim>\<open>load_image\<close>. The argument is \<open>None\<close> when the caller passes Python's \<^verbatim>\<open>None\<close>
  (\<^verbatim>\<open>get_poster_url\<close> returns it for a rejected path). The result is the surface
  returned, the state afterwards, and the URLs handed to \<^verbatim>\<open>api.download_image\<close>.
\<close>

definition load_image :: "image_env \<Rightarrow> string option \<Rightarrow> ui \<Rightarrow> surface \<times> ui \<times> string list" where
  "load_image env url s =
    (case url of
       None \<Rightarrow> (placeholder_image s, s, [])
     | Some u \<Rightarrow>
         if u = [] then (placeholder_image s, s, [])
         else
           (case map_of (image_cache s) u of
              Some img \<Rightarrow> (img, s\<lparr>image_cache := move_to_end u img (image_cache s)\<rparr>, [])
            | None \<Rightarrow>
                (case load_image_try env u s of
                   Inr (Some (img, s')) \<Rightarrow> (img, s', [u])
                 | Inr None \<Rightarrow> (placeholder_image s, s, [u])
                 | Inl e \<Rightarrow> (placeholder_image s, s, [u]))))"

subsection \<open>Notions used to state the cache properties\<close>

text \<open>The keys of the cache in iteration order, oldest first.\<close>

definition cache_keys :: "ui \<Rightarrow> string list" where
  "cache_keys s = map fst (image_cache s)"

text \<open>
  What the collaborators deliver for a URL, whatever the cache holds: the surface decoded by
  pygame, or by PIL after pygame raised one of the exceptions caught there; \<open>None\<close> when
  the download raises or gives \<^verbatim>\<open>None\<close> or no bytes, or when no decoder gives a surface.
\<close>

definition fetch_decode :: "image_env \<Rightarrow> string \<Rightarrow> surface option" where
  "fetch_decode env url =
    (case download_image (session_get env) url of
       Inr (Some image_data) \<Rightarrow>
         if image_data = [] then None
         else
           (case pygame_load env image_data of
              Decoded img \<Rightarrow> Some img
            | DecodeRaises e \<Rightarrow>
                if caught_pygame e \<and> PIL_AVAILABLE env then
                  (case pil_load env image_data of
                     Decoded img \<Rightarrow> Some img
                   | DecodeRaises e' \<Rightarrow> None)
                else None)
     | _ \<Rightarrow> None)"

text \<open>A response that is too large, by its header or by the bytes it streams.\<close>

definition oversized :: "http_outcome \<Rightarrow> bool" where
  "oversized r =
    (case r of
       GetRaises e \<Rightarrow> False
     | Response cl body e \<Rightarrow>
         (case cl of Length n \<Rightarrow> n > MAX_IMAGE_DOWNLOAD_SIZE | _ \<Rightarrow> False)
         \<or> int (length (concat body)) > MAX_IMAGE_DOWNLOAD_SIZE)"

text \<open>The state after one call of \<^verbatim>\<open>load_image\<close>, and after one call per URL of a list.\<close>

definition load_image_state :: "image_env \<Rightarrow> string option \<Rightarrow> ui \<Rightarrow> ui" where
  "load_image_state env url s = fst (snd (load_image env url s))"

definition load_images :: "image_env \<Rightarrow> string list \<Rightarrow> ui \<Rightarrow> ui" where
  "load_images env urls s = foldl (\<lambda>s u. load_image_state env (Some u) s) s urls"

section \<open>Navigation and input handling (ui.py)\<close>

text \<open>
  Each handler takes the reading of \<^verbatim>\<open>time.time()\<close> that holds while it runs.
  Handlers that index a list or call the API without catching its exceptions return
  \<open>py_error + ui\<close>.
\<close>

text \<open>
  \<^verbatim>\<open>xs[i]\<close>: positions 0 to len - 1 from the front, -1 down to -len from the back,
  \<^verbatim>\<open>IndexError\<close> outside.
\<close>

definition py_index :: "'a list \<Rightarrow> int \<Rightarrow> py_error + 'a" where
  "py_index xs i =
    (if 0 \<le> i \<and> i < int (length xs) then Inr (xs ! nat i)
     else if - int (length xs) \<le> i \<and> i < 0 then Inr (xs ! nat (int (length xs) + i))
     else Inl IndexError)"

text \<open>\<^verbatim>\<open>dict.get(key, default)\<close>.\<close>

definition dict_get :: "media \<Rightarrow> string \<Rightarrow> jvalue \<Rightarrow> jvalue" where
  "dict_get d k dflt = (case map_of d k of None \<Rightarrow> dflt | Some v \<Rightarrow> v)"

text \<open>
  The characters \<^verbatim>\<open>str.strip()\<close> removes, among the code points below 256: tab to
  carriage return, the four separators, the space, U+0085 and U+00A0.
\<close>

definition py_isspace :: "char \<Rightarrow> bool" where
  "py_isspace c = (of_char c \<in> {9, 10, 11, 12, 13, 28, 29, 30, 31, 32, 133, 160 :: nat})"

text \<open>Whether \<^verbatim>\<open>query.strip()\<close> is a non-empty string.\<close>

definition strip_nonempty :: "string \<Rightarrow> bool" where
  "strip_nonempty q = (\<not> list_all py_isspace q)"

subsection \<open>Collaborators\<close>

text \<open>
  The calls of \<^verbatim>\<open>JellyseerrAPI\<close> made by the handlers and the background threads:
  what each returns, or the exception that leaves it.
\<close>

record api =
  search_movies :: "string \<Rightarrow> py_error + media list option"
  search_tv :: "string \<Rightarrow> py_error + media list option"
  get_popular_movies :: "py_error + media list option"
  get_popular_tv :: "py_error + media list option"
  request_media :: "jvalue \<Rightarrow> jvalue \<Rightarrow> py_error + bool"

text \<open>The button numbers \<^verbatim>\<open>setup_controller\<close> writes into \<^verbatim>\<open>config\<close>.\<close>

record buttons =
  BUTTON_A :: int
  BUTTON_B :: int
  BUTTON_START :: int

text \<open>The key codes of pygame 2 that \<^verbatim>\<open>handle_keyboard\<close> compares with.\<close>

definition K_BACKSPACE :: int where "K_BACKSPACE = 8"
definition K_RETURN :: int where "K_RETURN = 13"
definition K_ESCAPE :: int where "K_ESCAPE = 27"
definition K_SPACE :: int where "K_SPACE = 32"
definition K_0 :: int where "K_0 = 48"
definition K_9 :: int where "K_9 = 57"
definition K_a :: int where "K_a = 97"
definition K_z :: int where "K_z = 122"
definition K_RIGHT :: int where "K_RIGHT = 1073741903"
definition K_LEFT :: int where "K_LEFT = 1073741904"
definition K_DOWN :: int where "K_DOWN = 1073741905"
definition K_UP :: int where "K_UP = 1073741906"

text \<open>The pygame events \<^verbatim>\<open>handle_input\<close> distinguishes.\<close>

datatype event =
    QUIT
  | JOYBUTTONDOWN int
  | JOYHATMOTION "int \<times> int"
  | KEYDOWN int
  | OtherEvent

subsection \<open>Messages and the navigation delay\<close>

definition show_message :: "string \<Rightarrow> color option \<Rightarrow> real \<Rightarrow> real \<Rightarrow> ui \<Rightarrow> ui" where
  "show_message msg color duration now s =
    s\<lparr>message := Some msg,
      message_color := (case color of None \<Rightarrow> COLOR_TEXT | Some c \<Rightarrow> c),
      message_time := now + duration\<rparr>"

definition can_navigate :: "real \<Rightarrow> ui \<Rightarrow> bool \<times> ui" where
  "can_navigate current_time s =
    (if current_time - last_nav_time s > NAV_DELAY
     then (True, s\<lparr>last_nav_time := current_time\<rparr>)
     else (False, s))"

text \<open>\<^verbatim>\<open>if self.can_navigate(): ...\<close> around a statement.\<close>

definition if_can_navigate :: "real \<Rightarrow> (ui \<Rightarrow> py_error + ui) \<Rightarrow> ui \<Rightarrow> py_error + ui" where
  "if_can_navigate now f s =
    (case can_navigate now s of (ok, s') \<Rightarrow> if ok then f s' else Inr s')"

subsection \<open>List navigation\<close>

text \<open>
  The length of the list \<^verbatim>\<open>navigate\<close> selects by the current screen; \<open>None\<close> for the
  screens without list navigation.
\<close>

definition active_len :: "ui \<Rightarrow> nat option" where
  "active_len s =
    (if current_screen s = ''main_menu'' then Some (length (menu_items s))
     else if current_screen s = ''search_results'' then Some (length (search_results s))
     else if current_screen s = ''browse'' then Some (length (browse_results s))
     else None)"

definition navigate :: "int \<Rightarrow> ui \<Rightarrow> ui" where
  "navigate direction s =
    (case active_len s of
       None \<Rightarrow> s
     | Some n \<Rightarrow>
         if n = 0 then s\<lparr>selected_index := 0\<rparr>
         else
           (let direction = max (- 1) (min 1 direction);
                new_index = selected_index s + direction;
                new_index = (if new_index < 0 then int n - 1
                             else if new_index \<ge> int n then 0
                             else new_index)
            in s\<lparr>selected_index := new_index\<rparr>))"

subsection \<open>The back-stack\<close>

text \<open>\<^verbatim>\<open>list.pop()\<close> takes the last element.\<close>

definition handle_back :: "ui \<Rightarrow> ui" where
  "handle_back s =
    (if screen_stack s \<noteq> [] then
       s\<lparr>current_screen := last (screen_stack s),
         screen_stack := butlast (screen_stack s),
         selected_index := 0\<rparr>
     else if current_screen s \<noteq> ''main_menu'' then
       s\<lparr>current_screen := ''main_menu'', selected_index := 0\<rparr>
     else s)"

subsection \<open>Background work\<close>

definition load_popular_content :: "real \<Rightarrow> ui \<Rightarrow> ui" where
  "load_popular_content now s =
    (let s' = show_message ''Loading popular content...'' (Some COLOR_PRIMARY) 3.0 now s
     in s'\<lparr>threads := threads s' @ [LoadPopularContent]\<rparr>)"

definition perform_search :: "string \<Rightarrow> real \<Rightarrow> ui \<Rightarrow> ui" where
  "perform_search query now s =
    (let s' = show_message (''Searching for '' @ [CHR 0x27] @ query @ [CHR 0x27] @ ''...'')
                (Some COLOR_PRIMARY) 3.0 now s
     in s'\<lparr>threads := threads s' @ [PerformSearch query]\<rparr>)"

text \<open>
  The API call of \<^verbatim>\<open>search_in_background\<close>: \<^verbatim>\<open>browse_type\<close> is read in the
  state in which the thread body begins, the query was fixed when the thread was started.
\<close>

definition search_call :: "api \<Rightarrow> string \<Rightarrow> ui \<Rightarrow> py_error + media list option" where
  "search_call a query s =
    (if browse_type s = Some ''movie'' then search_movies a query else search_tv a query)"

text \<open>
  What \<^verbatim>\<open>search_in_background\<close> does once the API call has returned \<open>r\<close>; the
  thread is finished afterwards. An empty list and \<^verbatim>\<open>None\<close> are both falsy.
\<close>

definition search_done :: "string \<Rightarrow> py_error + media list option \<Rightarrow> real \<Rightarrow> ui \<Rightarrow> ui" where
  "search_done query r now s =
    (let s = s\<lparr>threads := remove1 (PerformSearch query) (threads s)\<rparr> in
     case r of
       Inl e \<Rightarrow> show_message ''Search error'' (Some COLOR_ERROR) 3.0 now s
     | Inr None \<Rightarrow> show_message ''No results found'' (Some COLOR_ERROR) 3.0 now s
     | Inr (Some results) \<Rightarrow>
         if results \<noteq> [] then
           s\<lparr>search_results := results, current_screen := ''search_results'',
             selected_index := 0, message := None\<rparr>
         else show_message ''No results found'' (Some COLOR_ERROR) 3.0 now s)"

text \<open>
  The body of the thread: \<^verbatim>\<open>browse_type\<close> is read in the state \<open>begun\<close> in which
  the body begins, the API call then blocks, and its result is written into the state
  \<open>s\<close> that holds when the call has returned.
\<close>

definition search_in_background :: "api \<Rightarrow> string \<Rightarrow> ui \<Rightarrow> real \<Rightarrow> ui \<Rightarrow> ui" where
  "search_in_background a query begun now s =
     search_done query (search_call a query begun) now s"

text \<open>\<^verbatim>\<open>movies[:config.MAX_BROWSE_ITEMS_PER_TYPE]\<close> when \<^verbatim>\<open>movies\<close> is truthy.\<close>

definition extend_results :: "media list \<Rightarrow> media list option \<Rightarrow> media list" where
  "extend_results results r =
    (case r of None \<Rightarrow> results | Some ms \<Rightarrow> results @ take MAX_BROWSE_ITEMS_PER_TYPE ms)"

definition load_in_background :: "api \<Rightarrow> real \<Rightarrow> ui \<Rightarrow> ui" where
  "load_in_background a now s =
    (let s = s\<lparr>threads := remove1 LoadPopularContent (threads s)\<rparr> in
     case get_popular_movies a of
       Inl e \<Rightarrow> show_message ''Error loading content'' (Some COLOR_ERROR) 3.0 now s
     | Inr movies \<Rightarrow>
         (case get_popular_tv a of
            Inl e \<Rightarrow> show_message ''Error loading content'' (Some COLOR_ERROR) 3.0 now s
          | Inr tv_shows \<Rightarrow>
              (let results = extend_results (extend_results [] movies) tv_shows;
                   s = s\<lparr>browse_results := results\<rparr>
               in if results \<noteq> []
                  then s\<lparr>message := None, selected_index := 0\<rparr>
                  else show_message ''No content found'' (Some COLOR_ERROR) 3.0 now s)))"

subsection \<open>Selection\<close>

definition handle_main_menu_select :: "real \<Rightarrow> ui \<Rightarrow> ui" where
  "handle_main_menu_select now s =
    (if selected_index s = 0 then
       s\<lparr>screen_stack := screen_stack s @ [current_screen s],
         current_screen := ''keyboard'',
         browse_type := Some ''movie'',
         search_query := ''''\<rparr>
     else if selected_index s = 1 then
       s\<lparr>screen_stack := screen_stack s @ [current_screen s],
         current_screen := ''keyboard'',
         browse_type := Some ''tv'',
         search_query := ''''\<rparr>
     else if selected_index s = 2 then
       load_popular_content now
         (s\<lparr>screen_stack := screen_stack s @ [current_screen s],
            current_screen := ''browse''\<rparr>)
     else if selected_index s = 3 then s\<lparr>running := False\<rparr>
     else s)"

definition handle_search_result_select :: "ui \<Rightarrow> ui" where
  "handle_search_result_select s =
    (if 0 \<le> selected_index s \<and> selected_index s < int (length (search_results s)) then
       s\<lparr>selected_media := Some (search_results s ! nat (selected_index s)),
         screen_stack := screen_stack s @ [current_screen s],
         current_screen := ''media_detail''\<rparr>
     else s)"

definition handle_browse_select :: "ui \<Rightarrow> ui" where
  "handle_browse_select s =
    (if 0 \<le> selected_index s \<and> selected_index s < int (length (browse_results s)) then
       s\<lparr>selected_media := Some (browse_results s ! nat (selected_index s)),
         screen_stack := screen_stack s @ [current_screen s],
         current_screen := ''media_detail''\<rparr>
     else s)"

text \<open>\<^verbatim>\<open>if self.selected_media\<close> is false for \<^verbatim>\<open>None\<close> and for the empty dictionary.\<close>

definition handle_media_detail_select :: "api \<Rightarrow> real \<Rightarrow> ui \<Rightarrow> py_error + ui" where
  "handle_media_detail_select a now s =
    (case selected_media s of
       None \<Rightarrow> Inr s
     | Some m \<Rightarrow>
         if m = [] then Inr s
         else
           (let media_type = dict_get m ''mediaType'' (JStr ''movie'');
                media_id = dict_get m ''id'' JNone
            in case request_media a media_id media_type of
                 Inl e \<Rightarrow> Inl e
               | Inr ok \<Rightarrow>
                   if ok then
                     Inr ((show_message ''Request submitted successfully!''
                             (Some COLOR_SUCCESS) 3.0 now s)
                          \<lparr>scheduled_back_time := Some (now + 1.5)\<rparr>)
                   else
                     Inr (show_message ''Failed to submit request''
                            (Some COLOR_ERROR) 3.0 now s)))"

definition handle_keyboard_select :: "real \<Rightarrow> ui \<Rightarrow> py_error + ui" where
  "handle_keyboard_select now s =
    (if keyboard_row s \<ge> int (length (keyboard_layout s)) then Inr s
     else
       (case py_index (keyboard_layout s) (keyboard_row s) of
          Inl e \<Rightarrow> Inl e
        | Inr row \<Rightarrow>
            if keyboard_col s \<ge> int (length row) then Inr s
            else
              (case py_index row (keyboard_col s) of
                 Inl e \<Rightarrow> Inl e
               | Inr key \<Rightarrow>
                   if key = ''SEARCH'' then
                     (if strip_nonempty (search_query s)
                      then Inr (perform_search (search_query s) now s)
                      else Inr s)
                   else if key = ''CANCEL'' then Inr (handle_back s)
                   else if key = ''DEL'' then
                     Inr (s\<lparr>search_query := butlast (search_query s)\<rparr>)
                   else if key = '' '' then
                     Inr (s\<lparr>search_query := search_query s @ '' ''\<rparr>)
                   else Inr (s\<lparr>search_query := search_query s @ key\<rparr>))))"

definition handle_select :: "api \<Rightarrow> real \<Rightarrow> ui \<Rightarrow> py_error + ui" where
  "handle_select a now s =
    (if current_screen s = ''main_menu'' then Inr (handle_main_menu_select now s)
     else if current_screen s = ''search_results'' then Inr (handle_search_result_select s)
     else if current_screen s = ''browse'' then Inr (handle_browse_select s)
     else if current_screen s = ''media_detail'' then handle_media_detail_select a now s
     else if current_screen s = ''keyboard'' then handle_keyboard_select now s
     else Inr s)"

subsection \<open>The on-screen keyboard cursor\<close>

text \<open>
  The four cursor statements, which \<^verbatim>\<open>handle_dpad_motion\<close>, \<^verbatim>\<open>handle_keyboard\<close> and
  \<^verbatim>\<open>handle_analog_navigation\<close> each contain in the same words. Moving right reads
  \<^verbatim>\<open>self.keyboard_layout[self.keyboard_row]\<close>, which can raise.
\<close>

definition keyboard_up :: "ui \<Rightarrow> ui" where
  "keyboard_up s = s\<lparr>keyboard_row := max 0 (keyboard_row s - 1)\<rparr>"

definition keyboard_down :: "ui \<Rightarrow> ui" where
  "keyboard_down s =
    s\<lparr>keyboard_row := min (int (length (keyboard_layout s)) - 1) (keyboard_row s + 1)\<rparr>"

definition keyboard_left :: "ui \<Rightarrow> ui" where
  "keyboard_left s = s\<lparr>keyboard_col := max 0 (keyboard_col s - 1)\<rparr>"

definition keyboard_right :: "ui \<Rightarrow> py_error + ui" where
  "keyboard_right s =
    (case py_index (keyboard_layout s) (keyboard_row s) of
       Inl e \<Rightarrow> Inl e
     | Inr row \<Rightarrow>
         (let max_col = int (length row) - 1
          in Inr (s\<lparr>keyboard_col := min max_col (keyboard_col s + 1)\<rparr>)))"

subsection \<open>Input\<close>

definition handle_dpad_motion :: "int \<times> int \<Rightarrow> ui \<Rightarrow> py_error + ui" where
  "handle_dpad_motion v s =
    (case v of (x, y) \<Rightarrow>
      if current_screen s = ''keyboard'' then
        (let s1 = (if y = 1 then keyboard_up s
                   else if y = - 1 then keyboard_down s
                   else s)
         in if x = - 1 then Inr (keyboard_left s1)
            else if x = 1 then keyboard_right s1
            else Inr s1)
      else
        (if y = 1 then Inr (navigate (- 1) s)
         else if y = - 1 then Inr (navigate 1 s)
         else Inr s))"

definition handle_button_press :: "buttons \<Rightarrow> api \<Rightarrow> real \<Rightarrow> int \<Rightarrow> ui \<Rightarrow> py_error + ui" where
  "handle_button_press cfg a now button s =
    (if button = BUTTON_START cfg then Inr (s\<lparr>running := False\<rparr>)
     else if button = BUTTON_A cfg then handle_select a now s
     else if button = BUTTON_B cfg then Inr (handle_back s)
     else Inr s)"

definition handle_keyboard :: "api \<Rightarrow> real \<Rightarrow> int \<Rightarrow> ui \<Rightarrow> py_error + ui" where
  "handle_keyboard a now key s =
    (if current_screen s = ''keyboard'' then
       (if key = K_UP then if_can_navigate now (\<lambda>s. Inr (keyboard_up s)) s
        else if key = K_DOWN then if_can_navigate now (\<lambda>s. Inr (keyboard_down s)) s
        else if key = K_LEFT then if_can_navigate now (\<lambda>s. Inr (keyboard_left s)) s
        else if key = K_RIGHT then if_can_navigate now keyboard_right s
        else if key = K_RETURN then handle_keyboard_select now s
        else if key = K_ESCAPE then Inr (handle_back s)
        else if key = K_BACKSPACE then Inr (s\<lparr>search_query := butlast (search_query s)\<rparr>)
        else if key = K_SPACE then Inr (s\<lparr>search_query := search_query s @ '' ''\<rparr>)
        else if K_a \<le> key \<and> key \<le> K_z then
          Inr (s\<lparr>search_query := search_query s @ [char_of key]\<rparr>)
        else if K_0 \<le> key \<and> key \<le> K_9 then
          Inr (s\<lparr>search_query := search_query s @ [char_of key]\<rparr>)
        else Inr s)
     else
       (if key = K_ESCAPE then Inr (s\<lparr>running := False\<rparr>)
        else if key = K_RETURN \<or> key = K_SPACE then handle_select a now s
        else if key = K_BACKSPACE then Inr (handle_back s)
        else if key = K_UP then if_can_navigate now (\<lambda>s. Inr (navigate (- 1) s)) s
        else if key = K_DOWN then if_can_navigate now (\<lambda>s. Inr (navigate 1 s)) s
        else Inr s))"

text \<open>
  \<^verbatim>\<open>handle_analog_navigation\<close> with the axis readings \<open>y_axis\<close> and \<open>x_axis\<close>.
  \<^verbatim>\<open>can_navigate\<close> is only called when a joystick is attached.
\<close>

definition handle_analog_navigation :: "real \<Rightarrow> real \<Rightarrow> real \<Rightarrow> ui \<Rightarrow> py_error + ui" where
  "handle_analog_navigation now y_axis x_axis s =
    (if \<not> joystick s then Inr s
     else
       (case can_navigate now s of (ok, s) \<Rightarrow>
         if \<not> ok then Inr s
         else if current_screen s = ''keyboard'' then
           (let s1 = (if \<bar>y_axis\<bar> > CONTROLLER_DEADZONE
                      then (if y_axis < 0 then keyboard_up s else keyboard_down s)
                      else s)
            in if \<bar>x_axis\<bar> > CONTROLLER_DEADZONE
               then (if x_axis < 0 then Inr (keyboard_left s1) else keyboard_right s1)
               else Inr s1)
         else
           (if \<bar>y_axis\<bar> > CONTROLLER_DEADZONE
            then (if y_axis < 0 then Inr (navigate (- 1) s) else Inr (navigate 1 s))
            else Inr s)))"

text \<open>One event of the loop in \<^verbatim>\<open>handle_input\<close>.\<close>

definition handle_event :: "buttons \<Rightarrow> api \<Rightarrow> real \<Rightarrow> event \<Rightarrow> ui \<Rightarrow> py_error + ui" where
  "handle_event cfg a now ev s =
    (case ev of
       QUIT \<Rightarrow> Inr (s\<lparr>running := False\<rparr>)
     | JOYBUTTONDOWN button \<Rightarrow> handle_button_press cfg a now button s
     | JOYHATMOTION v \<Rightarrow> if_can_navigate now (handle_dpad_motion v) s
     | KEYDOWN key \<Rightarrow> handle_keyboard a now key s
     | OtherEvent \<Rightarrow> Inr s)"

text \<open>The events of one \<^verbatim>\<open>pygame.event.get()\<close>, each with the clock reading at its turn.\<close>

fun handle_events :: "buttons \<Rightarrow> api \<Rightarrow> (real \<times> event) list \<Rightarrow> ui \<Rightarrow> py_error + ui" where
  "handle_events cfg a [] s = Inr s"
| "handle_events cfg a ((now, ev) # rest) s =
     (case handle_event cfg a now ev s of
        Inl e \<Rightarrow> Inl e
      | Inr s' \<Rightarrow> handle_events cfg a rest s')"

text \<open>
  What one loop iteration reads from outside: the queued events, then the clock and the
  stick axes for the analog poll, then the clock for the scheduled-action check.
\<close>

record frame =
  frame_events :: "(real \<times> event) list"
  analog_time :: real
  y_axis :: real
  x_axis :: real
  check_time :: real

definition handle_input :: "buttons \<Rightarrow> api \<Rightarrow> frame \<Rightarrow> ui \<Rightarrow> py_error + ui" where
  "handle_input cfg a f s =
    (case handle_events cfg a (frame_events f) s of
       Inl e \<Rightarrow> Inl e
     | Inr s' \<Rightarrow>
         if joystick s' then handle_analog_navigation (analog_time f) (y_axis f) (x_axis f) s'
         else Inr s')"

subsection \<open>The scheduled back navigation (run)\<close>

text \<open>
  \<^verbatim>\<open>if self.scheduled_back_time and time.time() >= self.scheduled_back_time\<close>: the slot
  is falsy when it is \<^verbatim>\<open>None\<close> and when it is \<^verbatim>\<open>0.0\<close>.
\<close>

definition check_scheduled :: "real \<Rightarrow> ui \<Rightarrow> ui" where
  "check_scheduled now s =
    (case scheduled_back_time s of
       None \<Rightarrow> s
     | Some t \<Rightarrow>
         if t \<noteq> 0 \<and> now \<ge> t then handle_back (s\<lparr>scheduled_back_time := None\<rparr>)
         else s)"

text \<open>
  One iteration of the loop in \<^verbatim>\<open>run\<close> up to the scheduled-action check: input, then
  the check. An exception ends the loop.
\<close>

definition run_iteration :: "buttons \<Rightarrow> api \<Rightarrow> frame \<Rightarrow> ui \<Rightarrow> py_error + ui" where
  "run_iteration cfg a f s =
    (case handle_input cfg a f s of
       Inl e \<Rightarrow> Inl e
     | Inr s' \<Rightarrow> Inr (check_scheduled (check_time f) s'))"

subsection \<open>Notions used to state the back-stack properties\<close>

text \<open>
  The three select handlers that enter a screen, the branch condition under which each
  does so, and the screen it then enters. \<open>push_all\<close> runs a list of them, each in
  its entering branch, one after the other.
\<close>

datatype select_op = MainMenuSelect real | SearchResultSelect | BrowseSelect

definition run_select :: "select_op \<Rightarrow> ui \<Rightarrow> ui" where
  "run_select op s =
    (case op of
       MainMenuSelect now \<Rightarrow> handle_main_menu_select now s
     | SearchResultSelect \<Rightarrow> handle_search_result_select s
     | BrowseSelect \<Rightarrow> handle_browse_select s)"

definition enters_screen :: "select_op \<Rightarrow> ui \<Rightarrow> bool" where
  "enters_screen op s =
    (case op of
       MainMenuSelect now \<Rightarrow> selected_index s = 0 \<or> selected_index s = 1 \<or> selected_index s = 2
     | SearchResultSelect \<Rightarrow>
         0 \<le> selected_index s \<and> selected_index s < int (length (search_results s))
     | BrowseSelect \<Rightarrow>
         0 \<le> selected_index s \<and> selected_index s < int (length (browse_results s)))"

definition target_screen :: "select_op \<Rightarrow> ui \<Rightarrow> string" where
  "target_screen op s =
    (case op of
       MainMenuSelect now \<Rightarrow> if selected_index s = 2 then ''browse'' else ''keyboard''
     | SearchResultSelect \<Rightarrow> ''media_detail''
     | BrowseSelect \<Rightarrow> ''media_detail'')"

fun push_all :: "select_op list \<Rightarrow> ui \<Rightarrow> ui option" where
  "push_all [] s = Some s"
| "push_all (op # ops) s =
     (if enters_screen op s then push_all ops (run_select op s) else None)"


subsection \<open>Notions used to state the keyboard cursor properties\<close>

text \<open>The cursor names a cell of the layout.\<close>

definition cursor_valid :: "ui \<Rightarrow> bool" where
  "cursor_valid s =
    (0 \<le> keyboard_row s \<and> keyboard_row s < int (length (keyboard_layout s))
     \<and> 0 \<le> keyboard_col s
     \<and> keyboard_col s < int (length (keyboard_layout s ! nat (keyboard_row s))))"

text \<open>A sequence of hat motions, stopping at the first exception.\<close>

fun dpad_moves :: "(int \<times> int) list \<Rightarrow> ui \<Rightarrow> py_error + ui" where
  "dpad_moves [] s = Inr s"
| "dpad_moves (v # vs) s =
     (case handle_dpad_motion v s of Inl e \<Rightarrow> Inl e | Inr s' \<Rightarrow> dpad_moves vs s')"


subsection \<open>Notions used to state the scheduled back navigation\<close>

text \<open>
  \<open>submit_succeeds\<close>: a media item is selected and \<^verbatim>\<open>api.request_media\<close> returns
  \<^verbatim>\<open>True\<close> for it. \<open>is_navigation\<close>: a hat motion or an arrow key. \<open>idle\<close>: a
  loop iteration with no queued event and the stick inside the dead zone;
  \<open>after_idle_input\<close> is the state \<^verbatim>\<open>handle_input\<close> leaves then (the analog poll may
  still take the navigation delay).
\<close>

definition submit_succeeds :: "api \<Rightarrow> ui \<Rightarrow> bool" where
  "submit_succeeds a s =
    (case selected_media s of
       None \<Rightarrow> False
     | Some m \<Rightarrow>
         m \<noteq> [] \<and>
         request_media a (dict_get m ''id'' JNone) (dict_get m ''mediaType'' (JStr ''movie''))
           = Inr True)"

definition is_navigation :: "event \<Rightarrow> bool" where
  "is_navigation ev =
    (case ev of
       JOYHATMOTION v \<Rightarrow> True
     | KEYDOWN key \<Rightarrow> key = K_UP \<or> key = K_DOWN \<or> key = K_LEFT \<or> key = K_RIGHT
     | _ \<Rightarrow> False)"

definition idle :: "frame \<Rightarrow> bool" where
  "idle f =
    (frame_events f = [] \<and> \<bar>y_axis f\<bar> \<le> CONTROLLER_DEADZONE \<and> \<bar>x_axis f\<bar> \<le> CONTROLLER_DEADZONE)"

definition after_idle_input :: "frame \<Rightarrow> ui \<Rightarrow> ui" where
  "after_idle_input f s =
    (if joystick s \<and> analog_time f - last_nav_time s > NAV_DELAY
     then s\<lparr>last_nav_time := analog_time f\<rparr> else s)"

text \<open>The queued events of an iteration are all hat motions or arrow keys.\<close>

definition all_navigation :: "(real \<times> event) list \<Rightarrow> bool" where
  "all_navigation evs = list_all (\<lambda>(t, ev). is_navigation ev) evs"


section \<open>Concrete states and environments for the examples\<close>

text \<open>A server that answers every URL with the URL itself as the image bytes, and a
  pygame that decodes everything.\<close>

definition demo_env :: image_env where
  "demo_env = \<lparr> session_get = (\<lambda>url n. Response NoLength [url] None),
                 pygame_load = (\<lambda>d. Decoded (Surface d)),
                 PIL_AVAILABLE = False,
                 pil_load = (\<lambda>d. DecodeRaises OSError) \<rparr>"

text \<open>A server that announces six million bytes for every URL.\<close>

definition demo_env_oversized :: image_env where
  "demo_env_oversized = demo_env\<lparr>session_get := (\<lambda>url n. Response (Length 6000000) [url] None)\<rparr>"

text \<open>Fifty-one distinct URLs: \<open>''u''\<close>, \<open>''uu''\<close>, and so on.\<close>

definition demo_urls :: "string list" where
  "demo_urls = map (\<lambda>n. replicate (Suc n) CHR ''u'') [0..<51]"

definition demo_init :: ui where
  "demo_init = init (Surface ''No Image'') False"

text \<open>A full cache of capacity two.\<close>

definition demo_small :: ui where
  "demo_small = demo_init\<lparr>image_cache := [(''a'', Surface ''A''), (''b'', Surface ''B'')],
                            max_cache_size := 2\<rparr>"

text \<open>A cache of capacity one after its first image was loaded.\<close>

definition demo_single :: ui where
  "demo_single = load_image_state demo_env (Some ''a'') (demo_init\<lparr>max_cache_size := 1\<rparr>)"


text \<open>The main menu after its first draw.\<close>

definition demo_menu :: ui where
  "demo_menu = demo_init\<lparr>menu_items := [''Search Movies'', ''Search TV Shows'', ''Browse Popular'', ''Exit'']\<rparr>"

text \<open>The main menu with the second entry selected.\<close>

definition demo_menu_tv :: ui where
  "demo_menu_tv = navigate 1 demo_menu"


text \<open>
  The search results screen reached from the main menu: Search Movies, a search started
  from the keyboard screen, and its thread finishing with one result.
\<close>

definition demo_item :: media where
  "demo_item = [(''id'', JInt 603), (''mediaType'', JStr ''movie''), (''title'', JStr ''The Matrix'')]"

definition demo_results :: ui where
  "demo_results =
     search_done ''matrix'' (Inr (Some [demo_item])) 20
       (perform_search ''matrix'' 10 (handle_main_menu_select 1 demo_menu))"


text \<open>The keyboard screen entered from the main menu by Search Movies.\<close>

definition demo_keyboard :: ui where
  "demo_keyboard = handle_main_menu_select 1 demo_menu"


text \<open>
  An API that accepts every request, the Xbox button numbers, the detail screen of the
  one search result, the state after its request was submitted at time 100, and a loop
  iteration without input at time t.
\<close>

definition demo_api :: api where
  "demo_api = \<lparr> search_movies = (\<lambda>q. Inr (Some [demo_item])),
                 search_tv = (\<lambda>q. Inr (Some [])),
                 get_popular_movies = Inr (Some [demo_item]),
                 get_popular_tv = Inr None,
                 request_media = (\<lambda>media_id media_type. Inr True) \<rparr>"

definition demo_buttons :: buttons where
  "demo_buttons = \<lparr> BUTTON_A = 0, BUTTON_B = 1, BUTTON_START = 7 \<rparr>"

definition demo_detail :: ui where
  "demo_detail = handle_search_result_select demo_results"

definition demo_submitted :: ui where
  "demo_submitted =
     (show_message ''Request submitted successfully!'' (Some COLOR_SUCCESS) 3.0 100 demo_detail)
       \<lparr>scheduled_back_time := Some (100 + 1.5)\<rparr>"

definition demo_idle :: "real \<Rightarrow> frame" where
  "demo_idle t = \<lparr> frame_events = [], analog_time = t, y_axis = 0, x_axis = 0, check_time = t \<rparr>"


text \<open>
  An API whose movie search answers a query with one item carrying the query; two searches
  started one after the other from the keyboard screen, each thread beginning its body in
  the state its \<^verbatim>\<open>perform_search\<close> left; and the state after the call of the second
  thread has returned and then the call of the first.
\<close>

definition demo_search_api :: api where
  "demo_search_api =
     demo_api\<lparr>search_movies := (\<lambda>q. Inr (Some [[(''id'', JInt (int (length q))), (''title'', JStr q)]]))\<rparr>"

definition demo_first_search :: ui where
  "demo_first_search = perform_search ''a'' 1 demo_keyboard"

definition demo_two_searches :: ui where
  "demo_two_searches = perform_search ''bb'' 2 demo_first_search"

definition demo_after_race :: ui where
  "demo_after_race =
     search_in_background demo_search_api ''a'' demo_first_search 4
       (search_in_background demo_search_api ''bb'' demo_two_searches 3 demo_two_searches)"


section \<open>Properties of the image cache\<close>

lemma update_fresh: "k \<notin> fst ` set al \<Longrightarrow> AList.update k v al = al @ [(k, v)]"
  by (induction al) auto

lemma add_to_cache_raises: "add_to_cache url img s = Inl e \<Longrightarrow> e = StopIteration"
  by (auto simp: add_to_cache_def split: if_splits list.splits)

lemma decode_and_cache_Inl:
  "decode_and_cache dec url d s = Inl e \<Longrightarrow>
   (dec d = DecodeRaises e) \<or> (\<exists>img. dec d = Decoded img \<and> e = StopIteration)"
  unfolding decode_and_cache_def
  by (cases "dec d") (auto split: sum.splits dest: add_to_cache_raises)

lemma decode_and_cache_Inr:
  "decode_and_cache dec url d s = Inr r \<Longrightarrow>
   (\<exists>img s'. dec d = Decoded img \<and> add_to_cache url img s = Inr s' \<and> r = (img, s'))"
  unfolding decode_and_cache_def
  by (cases "dec d") (auto split: sum.splits)

lemma load_image_try_fail:
  assumes "fetch_decode env url = None" and "load_image_try env url s = Inr (Some r)"
  shows False
proof (cases "download_image (session_get env) url")
  case (Inl e)
  with assms(2) show False by (simp add: load_image_try_def)
next
  case (Inr od)
  show False
  proof (cases od)
    case None
    with Inr assms(2) show False by (simp add: load_image_try_def)
  next
    case (Some d)
    show False
    proof (cases "d = []")
      case True
      with Inr Some assms(2) show False by (simp add: load_image_try_def)
    next
      case False
      show False
      proof (cases "pygame_load env d")
        case (Decoded img)
        with Inr Some False assms(1) show False by (simp add: fetch_decode_def)
      next
        case (DecodeRaises e)
        then have dc: "decode_and_cache (pygame_load env) url d s = Inl e"
          by (simp add: decode_and_cache_def)
        show False
        proof (cases "caught_pygame e \<and> PIL_AVAILABLE env")
          case False
          with Inr Some \<open>d \<noteq> []\<close> dc assms(2) show False
            by (auto simp add: load_image_try_def split: if_splits)
        next
          case True
          with Inr Some \<open>d \<noteq> []\<close> DecodeRaises assms(1)
          obtain e' where "pil_load env d = DecodeRaises e'"
            by (cases "pil_load env d") (auto simp: fetch_decode_def)
          then have "decode_and_cache (pil_load env) url d s = Inl e'"
            by (simp add: decode_and_cache_def)
          with Inr Some \<open>d \<noteq> []\<close> dc True assms(2) show False
            by (auto simp add: load_image_try_def split: if_splits)
        qed
      qed
    qed
  qed
qed

lemma decode_and_cache_Decoded:
  "dec d = Decoded img \<Longrightarrow>
   decode_and_cache dec url d s =
     (case add_to_cache url img s of Inl e \<Rightarrow> Inl e | Inr s' \<Rightarrow> Inr (img, s'))"
  by (simp add: decode_and_cache_def)

lemma load_image_try_ok:
  assumes "fetch_decode env url = Some img"
  shows "load_image_try env url s =
     (case add_to_cache url img s of Inl e \<Rightarrow> Inl e | Inr s' \<Rightarrow> Inr (Some (img, s')))"
proof -
  from assms obtain d where d: "download_image (session_get env) url = Inr (Some d)" "d \<noteq> []"
    by (auto simp: fetch_decode_def split: sum.splits option.splits if_splits)
  show ?thesis
  proof (cases "pygame_load env d")
    case (Decoded i)
    with d assms have "i = img" by (simp add: fetch_decode_def)
    with d Decoded show ?thesis
      by (cases "add_to_cache url img s")
         (auto simp: load_image_try_def decode_and_cache_Decoded caught_pygame_def
               dest: add_to_cache_raises)
  next
    case (DecodeRaises e)
    then have dc: "decode_and_cache (pygame_load env) url d s = Inl e"
      by (simp add: decode_and_cache_def)
    from d DecodeRaises assms have c: "caught_pygame e" "PIL_AVAILABLE env"
      and p: "pil_load env d = Decoded img"
      by (auto simp: fetch_decode_def split: if_splits decode_result.splits)
    from d dc c p show ?thesis
      by (cases "add_to_cache url img s")
         (auto simp: load_image_try_def decode_and_cache_Decoded caught_pil_def
               dest: add_to_cache_raises)
  qed
qed

lemma load_image_miss:
  "url \<noteq> [] \<Longrightarrow> map_of (image_cache s) url = None \<Longrightarrow>
   load_image env (Some url) s =
     (case fetch_decode env url of
        None \<Rightarrow> (placeholder_image s, s, [url])
      | Some img \<Rightarrow>
          (case add_to_cache url img s of
             Inl e \<Rightarrow> (placeholder_image s, s, [url])
           | Inr s' \<Rightarrow> (img, s', [url])))"
  apply (cases "fetch_decode env url")
  subgoal
    using load_image_try_fail[of env url s]
    by (auto simp: load_image_def split: sum.splits option.splits)
  subgoal for img
    by (simp add: load_image_def load_image_try_ok split: sum.splits)
  done


lemma load_image_hit:
  "url \<noteq> [] \<Longrightarrow> map_of (image_cache s) url = Some img \<Longrightarrow>
   load_image env (Some url) s =
     (img, s\<lparr>image_cache := move_to_end url img (image_cache s)\<rparr>, [])"
  by (simp add: load_image_def)

lemma map_of_None_keys: "map_of al k = None \<longleftrightarrow> k \<notin> set (map fst al)"
  by (simp add: map_of_eq_None_iff)

lemma length_move_to_end:
  "map_of d url = Some v \<Longrightarrow> length (move_to_end url v d) \<le> length d"
proof -
  assume "map_of d url = Some v"
  then have "(url, v) \<in> set d" by (rule map_of_SomeD)
  then have "length (AList.delete url d) < length d"
    unfolding AList.delete_eq
    by (intro length_filter_less[of "(url, v)"]) auto
  then show ?thesis by (simp add: move_to_end_def)
qed

lemma add_to_cache_miss_state:
  assumes "add_to_cache url img s = Inr s'" and "url \<notin> set (cache_keys s)"
  shows "image_cache s' =
           (if int (length (image_cache s)) \<ge> max_cache_size s
            then tl (image_cache s) @ [(url, img)] else image_cache s @ [(url, img)])"
    and "max_cache_size s' = max_cache_size s"
proof -
  from assms(2) have fresh: "url \<notin> fst ` set (image_cache s)"
    by (simp add: cache_keys_def)
  then have fresh_tl: "url \<notin> fst ` set (tl (image_cache s))"
    by (cases "image_cache s") auto
  from assms(1) fresh fresh_tl show "image_cache s' =
           (if int (length (image_cache s)) \<ge> max_cache_size s
            then tl (image_cache s) @ [(url, img)] else image_cache s @ [(url, img)])"
    by (cases "image_cache s") (auto simp: add_to_cache_def update_fresh split: if_splits)
  from assms(1) show "max_cache_size s' = max_cache_size s"
    by (cases "image_cache s") (auto simp: add_to_cache_def split: if_splits)
qed

lemma add_to_cache_total:
  "image_cache s \<noteq> [] \<or> int (length (image_cache s)) < max_cache_size s \<Longrightarrow>
   \<exists>s'. add_to_cache url img s = Inr s'"
  by (cases "image_cache s") (auto simp: add_to_cache_def)

lemma load_image_state_cases:
  "load_image_state env url s = s
   \<or> (\<exists>u img. url = Some u \<and> map_of (image_cache s) u = Some img \<and>
        load_image_state env url s = s\<lparr>image_cache := move_to_end u img (image_cache s)\<rparr>)
   \<or> (\<exists>u img. url = Some u \<and> u \<notin> set (cache_keys s) \<and>
        add_to_cache u img s = Inr (load_image_state env url s))"
proof (cases url)
  case None
  then show ?thesis by (simp add: load_image_state_def load_image_def)
next
  case (Some u)
  show ?thesis
  proof (cases "u = []")
    case True
    with Some show ?thesis by (simp add: load_image_state_def load_image_def)
  next
    case False
    show ?thesis
    proof (cases "map_of (image_cache s) u")
      case (Some img)
      with False \<open>url = Some u\<close> show ?thesis
        by (simp add: load_image_state_def load_image_hit)
    next
      case None
      then have "u \<notin> set (cache_keys s)" by (simp add: map_of_None_keys cache_keys_def)
      with None False \<open>url = Some u\<close> show ?thesis
        by (auto simp: load_image_state_def load_image_miss split: option.splits sum.splits)
    qed
  qed
qed

lemma load_image_capacity:
  assumes "int (length (image_cache s)) \<le> max_cache_size s"
  shows "int (length (image_cache (load_image_state env url s))) \<le> max_cache_size s
         \<and> max_cache_size (load_image_state env url s) = max_cache_size s"
  using load_image_state_cases[of env url s]
proof (elim disjE exE conjE)
  assume "load_image_state env url s = s"
  with assms show ?thesis by simp
next
  fix u img
  assume "map_of (image_cache s) u = Some img"
    and "load_image_state env url s = s\<lparr>image_cache := move_to_end u img (image_cache s)\<rparr>"
  with assms length_move_to_end[of "image_cache s" u img] show ?thesis by simp
next
  fix u img
  assume "u \<notin> set (cache_keys s)" and a: "add_to_cache u img s = Inr (load_image_state env url s)"
  from add_to_cache_miss_state[OF a this(1)] assms a show ?thesis
    by (cases "image_cache s") (auto simp: add_to_cache_def split: if_splits)
qed


lemma load_images_Cons:
  "load_images env (u # us) s = load_images env us (load_image_state env (Some u) s)"
  by (simp add: load_images_def)

lemma load_image_state_miss_keys:
  assumes "u \<noteq> []" and "u \<notin> set (cache_keys s)" and "fetch_decode env u \<noteq> None"
    and "1 \<le> max_cache_size s"
  shows "cache_keys (load_image_state env (Some u) s) =
           (if int (length (cache_keys s)) \<ge> max_cache_size s
            then tl (cache_keys s) @ [u] else cache_keys s @ [u])
         \<and> max_cache_size (load_image_state env (Some u) s) = max_cache_size s"
proof -
  from assms(3) obtain img where img: "fetch_decode env u = Some img" by auto
  from assms(4) have "image_cache s \<noteq> [] \<or> int (length (image_cache s)) < max_cache_size s"
    by (cases "image_cache s") auto
  from add_to_cache_total[OF this] obtain s' where s': "add_to_cache u img s = Inr s'" by blast
  from assms(2) have "map_of (image_cache s) u = None"
    by (simp add: map_of_None_keys cache_keys_def)
  with assms(1) img s' have "load_image_state env (Some u) s = s'"
    by (simp add: load_image_state_def load_image_miss)
  with add_to_cache_miss_state[OF s' assms(2)] show ?thesis
    by (simp add: cache_keys_def map_tl)
qed

lemma load_images_keys:
  assumes "1 \<le> max_cache_size s"
    and "distinct (cache_keys s @ urls)"
    and "\<forall>u\<in>set urls. u \<noteq> [] \<and> fetch_decode env u \<noteq> None"
    and "int (length (cache_keys s)) \<le> max_cache_size s"
  shows "cache_keys (load_images env urls s) =
           drop (length (cache_keys s @ urls) - nat (max_cache_size s)) (cache_keys s @ urls)
         \<and> max_cache_size (load_images env urls s) = max_cache_size s"
  using assms
proof (induction urls arbitrary: s)
  case Nil
  then show ?case by (simp add: load_images_def)
next
  case (Cons u us)
  let ?s1 = "load_image_state env (Some u) s"
  from Cons.prems have u: "u \<noteq> []" "u \<notin> set (cache_keys s)" "fetch_decode env u \<noteq> None"
    by auto
  note step = load_image_state_miss_keys[OF u Cons.prems(1)]
  from step Cons.prems have p1: "1 \<le> max_cache_size ?s1" by simp
  from step Cons.prems have p2: "distinct (cache_keys ?s1 @ us)"
    by (cases "cache_keys s") (auto split: if_splits)
  from Cons.prems have p3: "\<forall>u\<in>set us. u \<noteq> [] \<and> fetch_decode env u \<noteq> None" by simp
  from step Cons.prems have p4: "int (length (cache_keys ?s1)) \<le> max_cache_size ?s1"
    by (cases "cache_keys s") (auto split: if_splits)
  note IH = Cons.IH[OF p1 p2 p3 p4]
  show ?case
  proof (cases "int (length (cache_keys s)) \<ge> max_cache_size s")
    case False
    with step IH show ?thesis by (simp add: load_images_Cons)
  next
    case True
    with Cons.prems obtain k ks where ks: "cache_keys s = k # ks"
      by (cases "cache_keys s") auto
    from True Cons.prems have len: "int (length (cache_keys s)) = max_cache_size s" by simp
    then have n: "nat (max_cache_size s) = Suc (length ks)" using ks by simp
    from True step ks have k1: "cache_keys ?s1 = ks @ [u]" by simp
    from step have m1: "max_cache_size ?s1 = max_cache_size s" by simp
    from IH k1 m1 n ks show ?thesis
      by (simp add: load_images_Cons)
  qed
qed


lemma cache_keys_move_to_end:
  "cache_keys (s\<lparr>image_cache := move_to_end k v (image_cache s)\<rparr>) = removeAll k (cache_keys s) @ [k]"
  by (simp add: cache_keys_def move_to_end_def delete_keys)

lemma hit_then_insert:
  assumes cap: "2 \<le> max_cache_size s"
    and k: "k \<noteq> []" "map_of (image_cache s) k = Some v"
    and new: "new \<noteq> []" "new \<notin> set (cache_keys s)" "fetch_decode env' new \<noteq> None"
  shows "fst (load_image env (Some k) s) = v
       \<and> last (cache_keys (load_image_state env (Some k) s)) = k
       \<and> k \<in> set (cache_keys (load_image_state env' (Some new) (load_image_state env (Some k) s)))"
proof -
  let ?s1 = "load_image_state env (Some k) s"
  from k have s1: "?s1 = s\<lparr>image_cache := move_to_end k v (image_cache s)\<rparr>"
    and r: "fst (load_image env (Some k) s) = v"
    by (simp_all add: load_image_state_def load_image_hit)
  have keys1: "cache_keys ?s1 = removeAll k (cache_keys s) @ [k]"
    by (simp only: s1 cache_keys_move_to_end)
  from k new have "new \<noteq> k"
    by (auto simp: cache_keys_def dest: map_of_SomeD intro: rev_image_eqI)
  with new keys1 have fresh: "new \<notin> set (cache_keys ?s1)" by simp
  from cap s1 have cap1: "1 \<le> max_cache_size ?s1" "2 \<le> max_cache_size ?s1" by simp_all
  note step = load_image_state_miss_keys[OF new(1) fresh new(3) cap1(1)]
  have "k \<in> set (cache_keys (load_image_state env' (Some new) ?s1))"
  proof (cases "removeAll k (cache_keys s)")
    case Nil
    with keys1 cap1 step show ?thesis by simp
  next
    case (Cons x xs)
    with keys1 step show ?thesis by (simp split: if_splits)
  qed
  with r keys1 show ?thesis by simp
qed

lemma evict_then_insert:
  assumes "1 \<le> max_cache_size s" and "int (length (image_cache s)) = max_cache_size s"
    and "url \<notin> set (cache_keys s)"
  shows "add_to_cache url img s = Inr (s\<lparr>image_cache := tl (image_cache s) @ [(url, img)]\<rparr>)"
proof -
  from assms(1,2) obtain p ps where ps: "image_cache s = p # ps"
    by (cases "image_cache s") auto
  with assms(3) have "url \<notin> fst ` set ps" by (simp add: cache_keys_def)
  with ps assms(2) show ?thesis by (simp add: add_to_cache_def update_fresh)
qed

text \<open>
  Claim C1, as the code has it. The cache never holds more than \<open>max_cache_size\<close>
  entries: a call of \<^verbatim>\<open>load_image\<close> keeps the bound and the capacity. With a
  capacity of at least 1, adding a new key to a full cache drops the oldest entry and
  appends the new one, and from the empty cache, loading capacity + 1 distinct URLs (each
  fetched and decoded) leaves exactly capacity entries, the first URL gone and the others
  in order. A read hit returns the cached surface and moves the key to the end, so that
  with a capacity of at least 2 a following insertion of a new key keeps the key just
  read.
\<close>

theorem image_cache_capacity_lru:
  "(\<forall>env url. int (length (image_cache s)) \<le> max_cache_size s \<longrightarrow>
       int (length (image_cache (load_image_state env url s)))
         \<le> max_cache_size (load_image_state env url s)
       \<and> max_cache_size (load_image_state env url s) = max_cache_size s)
   \<and> (\<forall>url img. 1 \<le> max_cache_size s \<and> int (length (image_cache s)) = max_cache_size s
          \<and> url \<notin> set (cache_keys s) \<longrightarrow>
       add_to_cache url img s = Inr (s\<lparr>image_cache := tl (image_cache s) @ [(url, img)]\<rparr>))
   \<and> (\<forall>env urls. 1 \<le> max_cache_size s \<and> image_cache s = [] \<and> distinct urls
          \<and> int (length urls) = max_cache_size s + 1
          \<and> (\<forall>u\<in>set urls. u \<noteq> [] \<and> fetch_decode env u \<noteq> None) \<longrightarrow>
       int (length (image_cache (load_images env urls s))) = max_cache_size s
       \<and> hd urls \<notin> set (cache_keys (load_images env urls s))
       \<and> cache_keys (load_images env urls s) = tl urls)
   \<and> (\<forall>env env' k v new. 2 \<le> max_cache_size s \<and> k \<noteq> [] \<and> map_of (image_cache s) k = Some v
          \<and> new \<noteq> [] \<and> new \<notin> set (cache_keys s) \<and> fetch_decode env' new \<noteq> None \<longrightarrow>
       fst (load_image env (Some k) s) = v
       \<and> last (cache_keys (load_image_state env (Some k) s)) = k
       \<and> k \<in> set (cache_keys (load_image_state env' (Some new) (load_image_state env (Some k) s))))"
proof (intro conjI allI impI)
  fix env url
  assume "int (length (image_cache s)) \<le> max_cache_size s"
  from load_image_capacity[OF this, of env url]
  show "int (length (image_cache (load_image_state env url s)))
          \<le> max_cache_size (load_image_state env url s)"
    and "max_cache_size (load_image_state env url s) = max_cache_size s"
    by simp_all
next
  fix url img
  assume "1 \<le> max_cache_size s \<and> int (length (image_cache s)) = max_cache_size s
          \<and> url \<notin> set (cache_keys s)"
  then show "add_to_cache url img s = Inr (s\<lparr>image_cache := tl (image_cache s) @ [(url, img)]\<rparr>)"
    by (simp add: evict_then_insert)
next
  fix env urls
  assume a: "1 \<le> max_cache_size s \<and> image_cache s = [] \<and> distinct urls
          \<and> int (length urls) = max_cache_size s + 1
          \<and> (\<forall>u\<in>set urls. u \<noteq> [] \<and> fetch_decode env u \<noteq> None)"
  then have e: "cache_keys s = []" by (simp add: cache_keys_def)
  from a e have "cache_keys (load_images env urls s) =
           drop (length (cache_keys s @ urls) - nat (max_cache_size s)) (cache_keys s @ urls)"
    by (intro load_images_keys[THEN conjunct1]) simp_all
  moreover from a have "length urls - nat (max_cache_size s) = 1" by linarith
  ultimately have keys: "cache_keys (load_images env urls s) = tl urls"
    using e by (simp add: drop_Suc)
  from a obtain u us where us: "urls = u # us" by (cases urls) auto
  show "cache_keys (load_images env urls s) = tl urls" by (rule keys)
  from keys us a show "hd urls \<notin> set (cache_keys (load_images env urls s))" by simp
  from a have "int (length urls) = max_cache_size s + 1" by simp
  with keys us have "length (cache_keys (load_images env urls s)) = nat (max_cache_size s)"
    by simp
  with a show "int (length (image_cache (load_images env urls s))) = max_cache_size s"
    by (simp add: cache_keys_def)
next
  fix env env' k v new
  assume a: "2 \<le> max_cache_size s \<and> k \<noteq> [] \<and> map_of (image_cache s) k = Some v
          \<and> new \<noteq> [] \<and> new \<notin> set (cache_keys s) \<and> fetch_decode env' new \<noteq> None"
  then have h: "fst (load_image env (Some k) s) = v
       \<and> last (cache_keys (load_image_state env (Some k) s)) = k
       \<and> k \<in> set (cache_keys (load_image_state env' (Some new) (load_image_state env (Some k) s)))"
    by (intro hit_then_insert) simp_all
  from h show "fst (load_image env (Some k) s) = v" by simp
  from h show "last (cache_keys (load_image_state env (Some k) s)) = k" by simp
  from h show "k \<in> set (cache_keys (load_image_state env' (Some new) (load_image_state env (Some k) s)))"
    by simp
qed

lemma fetch_decode_demo:
  "u \<noteq> [] \<Longrightarrow> int (length u) \<le> MAX_IMAGE_DOWNLOAD_SIZE \<Longrightarrow> fetch_decode demo_env u = Some (Surface u)"
  by (simp add: fetch_decode_def demo_env_def download_image_def max_retries_def
      numeral_3_eq_3 download_attempt_def)

theorem image_cache_capacity_lru_witness:
  "(int (length (image_cache demo_init)) \<le> max_cache_size demo_init
      \<and> int (length (image_cache (load_image_state demo_env (Some ''u'') demo_init))) \<le> 50)
   \<and> ((1 \<le> max_cache_size demo_init \<and> image_cache demo_init = [] \<and> distinct demo_urls
      \<and> int (length demo_urls) = max_cache_size demo_init + 1
      \<and> list_all (\<lambda>u. u \<noteq> [] \<and> fetch_decode demo_env u \<noteq> None) demo_urls)
      \<and> (int (length (image_cache (load_images demo_env demo_urls demo_init))) = 50
      \<and> hd demo_urls \<notin> set (cache_keys (load_images demo_env demo_urls demo_init))))
   \<and> ((1 \<le> max_cache_size demo_small \<and> int (length (image_cache demo_small)) = max_cache_size demo_small
      \<and> ''c'' \<notin> set (cache_keys demo_small))
      \<and> add_to_cache ''c'' (Surface ''C'') demo_small
          = Inr (demo_small\<lparr>image_cache := [(''b'', Surface ''B''), (''c'', Surface ''C'')]\<rparr>))
   \<and> ((2 \<le> max_cache_size demo_small \<and> ''a'' \<noteq> []
      \<and> map_of (image_cache demo_small) ''a'' = Some (Surface ''A'')
      \<and> ''c'' \<noteq> [] \<and> ''c'' \<notin> set (cache_keys demo_small) \<and> fetch_decode demo_env ''c'' \<noteq> None)
      \<and> ''a'' \<in> set (cache_keys (load_image_state demo_env (Some ''c'')
                                   (load_image_state demo_env (Some ''a'') demo_small))))"
proof -
  have m: "max_cache_size demo_init = 50" "image_cache demo_init = []"
    by (simp_all add: demo_init_def init_def MAX_IMAGE_CACHE_SIZE_def)
  have h1: "int (length (image_cache demo_init)) \<le> max_cache_size demo_init"
    by (simp add: m)
  have inj: "inj_on (\<lambda>n. replicate (Suc n) CHR ''u'') (set [0..<51])"
    by (rule inj_onI) (drule arg_cong[where f = length], simp)
  have fd: "\<forall>u\<in>set demo_urls. u \<noteq> [] \<and> fetch_decode demo_env u \<noteq> None"
    by (auto simp: demo_urls_def fetch_decode_demo MAX_IMAGE_DOWNLOAD_SIZE_def)
  have h3: "1 \<le> max_cache_size demo_init \<and> image_cache demo_init = [] \<and> distinct demo_urls
      \<and> int (length demo_urls) = max_cache_size demo_init + 1
      \<and> (\<forall>u\<in>set demo_urls. u \<noteq> [] \<and> fetch_decode demo_env u \<noteq> None)"
    using inj fd by (simp add: m demo_urls_def distinct_map)
  have s: "max_cache_size demo_small = 2"
    "image_cache demo_small = [(''a'', Surface ''A''), (''b'', Surface ''B'')]"
    by (simp_all add: demo_small_def)
  have f: "fetch_decode demo_env ''c'' \<noteq> None"
    by (simp add: fetch_decode_demo MAX_IMAGE_DOWNLOAD_SIZE_def)
  have h2: "1 \<le> max_cache_size demo_small \<and> int (length (image_cache demo_small)) = max_cache_size demo_small
      \<and> ''c'' \<notin> set (cache_keys demo_small)"
    by (simp add: s cache_keys_def)
  have h4: "2 \<le> max_cache_size demo_small \<and> ''a'' \<noteq> []
      \<and> map_of (image_cache demo_small) ''a'' = Some (Surface ''A'')
      \<and> ''c'' \<noteq> [] \<and> ''c'' \<notin> set (cache_keys demo_small) \<and> fetch_decode demo_env ''c'' \<noteq> None"
    using f by (simp add: s cache_keys_def)
  note t1 = image_cache_capacity_lru[of demo_init]
  note t2 = image_cache_capacity_lru[of demo_small]
  note c1 = t1[THEN conjunct1, rule_format, OF h1, of demo_env "Some ''u''"]
  note c3 = t1[THEN conjunct2, THEN conjunct2, THEN conjunct1, rule_format, OF h3]
  note c2 = t2[THEN conjunct2, THEN conjunct1, rule_format, OF h2, of "Surface ''C''"]
  note c4 = t2[THEN conjunct2, THEN conjunct2, THEN conjunct2, rule_format, OF h4, of demo_env]
  from c1 m have g1: "int (length (image_cache (load_image_state demo_env (Some ''u'') demo_init))) \<le> 50"
    by simp
  from c3[THEN conjunct1] c3[THEN conjunct2, THEN conjunct1] m
  have g3: "int (length (image_cache (load_images demo_env demo_urls demo_init))) = 50
      \<and> hd demo_urls \<notin> set (cache_keys (load_images demo_env demo_urls demo_init))"
    by simp
  from c2 s have g2: "add_to_cache ''c'' (Surface ''C'') demo_small
          = Inr (demo_small\<lparr>image_cache := [(''b'', Surface ''B''), (''c'', Surface ''C'')]\<rparr>)"
    by simp
  from c4 have g4: "''a'' \<in> set (cache_keys (load_image_state demo_env (Some ''c'')
                                   (load_image_state demo_env (Some ''a'') demo_small)))"
    by simp
  from h3 have h3': "1 \<le> max_cache_size demo_init \<and> image_cache demo_init = [] \<and> distinct demo_urls
      \<and> int (length demo_urls) = max_cache_size demo_init + 1
      \<and> list_all (\<lambda>u. u \<noteq> [] \<and> fetch_decode demo_env u \<noteq> None) demo_urls"
    unfolding list_all_iff .
  show ?thesis
    by (rule conjI[OF conjI[OF h1 g1] conjI[OF conjI[OF h3' g3] conjI[OF conjI[OF h2 g2] conjI[OF h4 g4]]]])
qed

lemma demo_single_fields:
  "image_cache demo_single = [(''a'', Surface ''a'')]"
  "max_cache_size demo_single = 1"
proof -
  let ?s = "demo_init\<lparr>max_cache_size := 1\<rparr>"
  have e: "image_cache ?s = []" by (simp add: demo_init_def init_def)
  have f: "fetch_decode demo_env ''a'' = Some (Surface ''a'')"
    by (simp add: fetch_decode_demo MAX_IMAGE_DOWNLOAD_SIZE_def)
  have "load_image demo_env (Some ''a'') ?s
          = (Surface ''a'', ?s\<lparr>image_cache := [(''a'', Surface ''a'')]\<rparr>, [''a''])"
    by (simp add: load_image_miss e f add_to_cache_def)
  then have d: "demo_single = ?s\<lparr>image_cache := [(''a'', Surface ''a'')]\<rparr>"
    by (simp add: demo_single_def load_image_state_def)
  show "image_cache demo_single = [(''a'', Surface ''a'')]" by (simp add: d)
  show "max_cache_size demo_single = 1" by (simp add: d)
qed

text \<open>
  Claim C1 as stated fails for a cache of capacity 1, a capacity \<^verbatim>\<open>validate_config\<close>
  accepts: the one cached URL is read, and loading a new URL then evicts it.
\<close>

theorem read_hit_then_insert_counterexample:
  "max_cache_size demo_single = 1
   \<and> cache_keys demo_single = [''a'']
   \<and> fst (load_image demo_env (Some ''a'') demo_single) = Surface ''a''
   \<and> cache_keys (load_image_state demo_env (Some ''a'') demo_single) = [''a'']
   \<and> cache_keys (load_image_state demo_env (Some ''c'')
        (load_image_state demo_env (Some ''a'') demo_single)) = [''c'']
   \<and> ''a'' \<notin> set (cache_keys (load_image_state demo_env (Some ''c'')
        (load_image_state demo_env (Some ''a'') demo_single)))"
proof -
  let ?s1 = "load_image_state demo_env (Some ''a'') demo_single"
  have h: "load_image demo_env (Some ''a'') demo_single
             = (Surface ''a'', demo_single\<lparr>image_cache := [(''a'', Surface ''a'')]\<rparr>, [])"
    by (simp add: load_image_hit demo_single_fields move_to_end_def)
  then have s1: "?s1 = demo_single\<lparr>image_cache := [(''a'', Surface ''a'')]\<rparr>"
    by (simp add: load_image_state_def)
  have c1: "image_cache ?s1 = [(''a'', Surface ''a'')]" "max_cache_size ?s1 = 1"
    by (simp_all add: s1 demo_single_fields)
  have f: "fetch_decode demo_env ''c'' = Some (Surface ''c'')"
    by (simp add: fetch_decode_demo MAX_IMAGE_DOWNLOAD_SIZE_def)
  have "load_image demo_env (Some ''c'') ?s1
          = (Surface ''c'', ?s1\<lparr>image_cache := [(''c'', Surface ''c'')]\<rparr>, [''c''])"
    by (simp add: load_image_miss c1 f add_to_cache_def)
  then have k2: "cache_keys (load_image_state demo_env (Some ''c'') ?s1) = [''c'']"
    by (simp add: load_image_state_def cache_keys_def)
  have 1: "max_cache_size demo_single = 1" by (rule demo_single_fields)
  have 2: "cache_keys demo_single = [''a'']" by (simp add: cache_keys_def demo_single_fields)
  from h have 3: "fst (load_image demo_env (Some ''a'') demo_single) = Surface ''a''" by simp
  have 4: "cache_keys ?s1 = [''a'']" by (simp add: cache_keys_def c1)
  from k2 have 6: "''a'' \<notin> set (cache_keys (load_image_state demo_env (Some ''c'') ?s1))"
    by simp
  show ?thesis by (rule conjI[OF 1 conjI[OF 2 conjI[OF 3 conjI[OF 4 conjI[OF k2 6]]]]])
qed

lemma read_chunks_over:
  "tot \<le> MAX_IMAGE_DOWNLOAD_SIZE \<Longrightarrow> tot + int (length (concat rest)) > MAX_IMAGE_DOWNLOAD_SIZE \<Longrightarrow>
   read_chunks rest e acc tot = Inr None"
proof (induction rest arbitrary: acc tot)
  case Nil
  then show ?case by simp
next
  case (Cons c cs)
  show ?case
  proof (cases "tot + int (length c) > MAX_IMAGE_DOWNLOAD_SIZE")
    case True
    then show ?thesis by simp
  next
    case False
    with Cons.prems have "read_chunks cs e (acc @ [c]) (tot + int (length c)) = Inr None"
      by (intro Cons.IH) (simp_all add: add.assoc)
    with False show ?thesis by simp
  qed
qed

lemma download_attempt_oversized:
  "oversized r \<Longrightarrow> download_attempt r = Inr None \<or> download_attempt r = Inl ValueError"
proof (cases r)
  case (GetRaises e)
  assume "oversized r"
  with GetRaises show ?thesis by (simp add: oversized_def)
next
  case (Response cl body e)
  assume o: "oversized r"
  have pos: "(0::int) \<le> MAX_IMAGE_DOWNLOAD_SIZE" by (simp add: MAX_IMAGE_DOWNLOAD_SIZE_def)
  show ?thesis
  proof (cases cl)
    case NoLength
    with o Response have "int (length (concat body)) > MAX_IMAGE_DOWNLOAD_SIZE"
      by (simp add: oversized_def)
    with pos have "read_chunks body e [] 0 = Inr None" by (intro read_chunks_over) simp_all
    with Response NoLength show ?thesis by (simp add: download_attempt_def)
  next
    case BadLength
    with Response show ?thesis by (simp add: download_attempt_def)
  next
    case (Length n)
    show ?thesis
    proof (cases "n > MAX_IMAGE_DOWNLOAD_SIZE")
      case True
      with Response Length show ?thesis by (simp add: download_attempt_def)
    next
      case False
      with o Response Length have "int (length (concat body)) > MAX_IMAGE_DOWNLOAD_SIZE"
        by (simp add: oversized_def)
      with pos have "read_chunks body e [] 0 = Inr None" by (intro read_chunks_over) simp_all
      with Response Length False show ?thesis by (simp add: download_attempt_def)
    qed
  qed
qed

lemma fetch_decode_oversized:
  assumes "oversized (session_get env url 0)"
  shows "fetch_decode env url = None"
proof -
  from download_attempt_oversized[OF assms]
  have "download_image (session_get env) url = Inr None
        \<or> download_image (session_get env) url = Inl ValueError"
    by (auto simp: download_image_def max_retries_def numeral_3_eq_3)
  then show ?thesis by (auto simp: fetch_decode_def)
qed

lemma load_image_fail:
  assumes "url \<noteq> []" and "url \<notin> set (cache_keys s)" and "fetch_decode env url = None"
  shows "load_image env (Some url) s = (placeholder_image s, s, [url])"
proof -
  from assms(2) have "map_of (image_cache s) url = None"
    by (simp add: map_of_None_keys cache_keys_def)
  with assms(1,3) show ?thesis by (simp add: load_image_miss)
qed

text \<open>
  Claim C6. A missing or empty URL gives the placeholder, the same state and no download.
  When the URL is not cached and fetching or decoding fails, \<^verbatim>\<open>load_image\<close>
  returns the placeholder and the state is unchanged, so the next call for the same URL,
  failing again, also returns the placeholder from the same state. An oversized response
  is such a failure.
\<close>

theorem load_image_failure_not_cached:
  "(\<forall>env. load_image env None s = (placeholder_image s, s, [])
         \<and> load_image env (Some []) s = (placeholder_image s, s, []))
   \<and> (\<forall>env env' url. url \<noteq> [] \<and> url \<notin> set (cache_keys s)
          \<and> fetch_decode env url = None \<and> fetch_decode env' url = None \<longrightarrow>
        load_image env (Some url) s = (placeholder_image s, s, [url])
        \<and> load_image env' (Some url) (load_image_state env (Some url) s)
            = (placeholder_image s, s, [url]))
   \<and> (\<forall>env url. url \<noteq> [] \<and> url \<notin> set (cache_keys s) \<and> oversized (session_get env url 0) \<longrightarrow>
        load_image env (Some url) s = (placeholder_image s, s, [url]))"
proof (intro conjI allI impI)
  fix env
  show "load_image env None s = (placeholder_image s, s, [])"
    and "load_image env (Some []) s = (placeholder_image s, s, [])"
    by (simp_all add: load_image_def)
next
  fix env env' url
  assume a: "url \<noteq> [] \<and> url \<notin> set (cache_keys s)
          \<and> fetch_decode env url = None \<and> fetch_decode env' url = None"
  then have 1: "load_image env (Some url) s = (placeholder_image s, s, [url])"
    by (intro load_image_fail) simp_all
  from a have 2: "load_image env' (Some url) s = (placeholder_image s, s, [url])"
    by (intro load_image_fail) simp_all
  show "load_image env (Some url) s = (placeholder_image s, s, [url])" by (rule 1)
  from 1 2 show "load_image env' (Some url) (load_image_state env (Some url) s)
            = (placeholder_image s, s, [url])"
    by (simp add: load_image_state_def)
next
  fix env :: image_env and url
  assume a: "url \<noteq> [] \<and> url \<notin> set (cache_keys s) \<and> oversized (session_get env url 0)"
  then have "fetch_decode env url = None" by (intro fetch_decode_oversized) simp
  with a show "load_image env (Some url) s = (placeholder_image s, s, [url])"
    by (intro load_image_fail) simp_all
qed

theorem load_image_failure_not_cached_witness:
  "(''c'' \<noteq> [] \<and> ''c'' \<notin> set (cache_keys demo_small)
      \<and> fetch_decode demo_env_oversized ''c'' = None \<and> fetch_decode demo_env_oversized ''c'' = None)
   \<and> (''c'' \<noteq> [] \<and> ''c'' \<notin> set (cache_keys demo_small)
      \<and> oversized (session_get demo_env_oversized ''c'' 0))
   \<and> load_image demo_env_oversized (Some ''c'') demo_small
        = (Surface ''No Image'', demo_small, [''c''])
   \<and> load_image demo_env_oversized (Some ''c'')
        (load_image_state demo_env_oversized (Some ''c'') demo_small)
        = (Surface ''No Image'', demo_small, [''c''])"
proof -
  have o: "oversized (session_get demo_env_oversized ''c'' 0)"
    by (simp add: oversized_def demo_env_oversized_def MAX_IMAGE_DOWNLOAD_SIZE_def)
  have f: "fetch_decode demo_env_oversized ''c'' = None"
    by (simp add: fetch_decode_def demo_env_oversized_def demo_env_def download_image_def
        max_retries_def numeral_3_eq_3 download_attempt_def MAX_IMAGE_DOWNLOAD_SIZE_def)
  have k: "''c'' \<noteq> []" "''c'' \<notin> set (cache_keys demo_small)"
    by (simp_all add: cache_keys_def demo_small_def)
  have p: "placeholder_image demo_small = Surface ''No Image''"
    by (simp add: demo_small_def demo_init_def init_def)
  have h2: "''c'' \<noteq> [] \<and> ''c'' \<notin> set (cache_keys demo_small)
      \<and> fetch_decode demo_env_oversized ''c'' = None \<and> fetch_decode demo_env_oversized ''c'' = None"
    using k f by simp
  have h3: "''c'' \<noteq> [] \<and> ''c'' \<notin> set (cache_keys demo_small)
      \<and> oversized (session_get demo_env_oversized ''c'' 0)"
    using k o by simp
  note t = load_image_failure_not_cached[of demo_small]
  note c2 = t[THEN conjunct2, THEN conjunct1, rule_format, OF h2]
  have g: "load_image demo_env_oversized (Some ''c'') demo_small
        = (Surface ''No Image'', demo_small, [''c''])
   \<and> load_image demo_env_oversized (Some ''c'')
        (load_image_state demo_env_oversized (Some ''c'') demo_small)
        = (Surface ''No Image'', demo_small, [''c''])"
    using c2 by (simp only: p)
  show ?thesis
    by (rule conjI[OF h2 conjI[OF h3 g]])
qed

section \<open>Properties of list navigation\<close>

lemma navigate_active_len [simp]: "active_len (navigate d s) = active_len s"
  by (simp add: navigate_def active_len_def Let_def split: option.splits)

lemma navigate_index:
  assumes "active_len s = Some n" and "0 < n"
  shows "selected_index (navigate d s) =
           (let i = selected_index s + max (- 1) (min 1 d)
            in if i < 0 then int n - 1 else if i \<ge> int n then 0 else i)"
  using assms by (simp add: navigate_def Let_def)

lemma navigate_mod:
  assumes "active_len s = Some n" and "0 < n"
    and "0 \<le> selected_index s" and "selected_index s < int n"
  shows "selected_index (navigate d s) = (selected_index s + max (- 1) (min 1 d)) mod int n"
proof -
  let ?c = "max (- 1) (min 1 d)" and ?i = "selected_index s"
  have c: "?c = - 1 \<or> ?c = 0 \<or> ?c = 1" by auto
  have "(?i + ?c) mod int n = (if ?i + ?c < 0 then int n - 1 else if ?i + ?c \<ge> int n then 0 else ?i + ?c)"
  proof (cases "?i + ?c < 0")
    case True
    with c assms have m: "?i + ?c = - 1" by auto
    from assms(2) have "(- 1) mod int n = int n - 1" by (simp add: zmod_minus1)
    with True show ?thesis by (simp only: m if_True)
  next
    case False
    show ?thesis
    proof (cases "?i + ?c \<ge> int n")
      case True
      with c assms have "?i + ?c = int n" by auto
      with False True show ?thesis by simp
    next
      case ge: False
      with False show ?thesis by simp
    qed
  qed
  with navigate_index[OF assms(1,2), of d] show ?thesis by (simp add: Let_def)
qed

lemma navigate_range:
  assumes "active_len s = Some n" and "0 < n"
    and "0 \<le> selected_index s" and "selected_index s < int n"
  shows "0 \<le> selected_index (navigate d s) \<and> selected_index (navigate d s) < int n"
  using navigate_mod[OF assms, of d] assms(2) by simp

lemma navigate_iter:
  assumes "active_len s = Some n" and "0 < n"
    and "0 \<le> selected_index s" and "selected_index s < int n"
  shows "active_len ((navigate 1 ^^ k) s) = Some n
       \<and> selected_index ((navigate 1 ^^ k) s) = (selected_index s + int k) mod int n"
proof (induction k)
  case 0
  with assms show ?case by simp
next
  case (Suc k)
  let ?s = "(navigate 1 ^^ k) s"
  from Suc assms(2) have r: "active_len ?s = Some n" "0 \<le> selected_index ?s" "selected_index ?s < int n"
    by simp_all
  from navigate_mod[OF r(1) assms(2) r(2,3), of 1] Suc
  have "selected_index (navigate 1 ?s) = ((selected_index s + int k) mod int n + 1) mod int n"
    by simp
  also have "\<dots> = (selected_index s + int (Suc k)) mod int n"
    by (metis mod_add_left_eq add.assoc of_nat_Suc add.commute)
  finally show ?case using r by simp
qed


text \<open>
  Claim C4. On a screen whose list has n > 0 items and with the selected index inside the
  list, n calls of \<^verbatim>\<open>navigate(1)\<close> bring the index back to where it started; one
  call with a direction d in {-1, 0, 1} gives (index + d) mod n; moving up from 0 gives
  n - 1 and moving down from n - 1 gives 0.
\<close>

theorem navigate_wraparound:
  "active_len s = Some n \<and> 0 < n \<and> 0 \<le> selected_index s \<and> selected_index s < int n \<longrightarrow>
     selected_index ((navigate 1 ^^ n) s) = selected_index s
     \<and> (\<forall>d. - 1 \<le> d \<and> d \<le> 1 \<longrightarrow>
           selected_index (navigate d s) = (selected_index s + d) mod int n)
     \<and> (selected_index s = 0 \<longrightarrow> selected_index (navigate (- 1) s) = int n - 1)
     \<and> (selected_index s = int n - 1 \<longrightarrow> selected_index (navigate 1 s) = 0)"
proof (intro impI, elim conjE)
  assume a: "active_len s = Some n" "0 < n" "0 \<le> selected_index s" "selected_index s < int n"
  have 1: "selected_index ((navigate 1 ^^ n) s) = selected_index s"
    using navigate_iter[OF a, of n] a by simp
  have 2: "\<forall>d. - 1 \<le> d \<and> d \<le> 1 \<longrightarrow>
           selected_index (navigate d s) = (selected_index s + d) mod int n"
  proof (intro allI impI)
    fix d :: int
    assume "- 1 \<le> d \<and> d \<le> 1"
    then have "max (- 1) (min 1 d) = d" by auto
    with navigate_mod[OF a, of d]
    show "selected_index (navigate d s) = (selected_index s + d) mod int n" by simp
  qed
  have 3: "selected_index s = 0 \<longrightarrow> selected_index (navigate (- 1) s) = int n - 1"
    using navigate_index[OF a(1,2), of "- 1"] by (simp add: Let_def)
  have 4: "selected_index s = int n - 1 \<longrightarrow> selected_index (navigate 1 s) = 0"
    using navigate_index[OF a(1,2), of 1] by (simp add: Let_def)
  from 1 2 3 4 show "selected_index ((navigate 1 ^^ n) s) = selected_index s
     \<and> (\<forall>d. - 1 \<le> d \<and> d \<le> 1 \<longrightarrow>
           selected_index (navigate d s) = (selected_index s + d) mod int n)
     \<and> (selected_index s = 0 \<longrightarrow> selected_index (navigate (- 1) s) = int n - 1)
     \<and> (selected_index s = int n - 1 \<longrightarrow> selected_index (navigate 1 s) = 0)"
    by (intro conjI)
qed

theorem navigate_wraparound_witness:
  "(active_len demo_menu = Some 4 \<and> (0::nat) < 4 \<and> 0 \<le> selected_index demo_menu
      \<and> selected_index demo_menu < int 4)
   \<and> selected_index ((navigate 1 ^^ 4) demo_menu) = 0
   \<and> selected_index (navigate (- 1) demo_menu) = 3"
proof -
  have h: "active_len demo_menu = Some 4 \<and> (0::nat) < 4 \<and> 0 \<le> selected_index demo_menu
      \<and> selected_index demo_menu < int 4"
    by (simp add: demo_menu_def demo_init_def init_def active_len_def)
  have z: "selected_index demo_menu = 0"
    by (simp add: demo_menu_def demo_init_def init_def)
  note t = navigate_wraparound[of demo_menu 4, rule_format, OF h]
  from t[THEN conjunct1] z have g1: "selected_index ((navigate 1 ^^ 4) demo_menu) = 0"
    by simp
  from t[THEN conjunct2, THEN conjunct2, THEN conjunct1, rule_format, OF z]
  have g2: "selected_index (navigate (- 1) demo_menu) = 3" by simp
  show ?thesis by (rule conjI[OF h conjI[OF g1 g2]])
qed

text \<open>
  Claim C7. On a screen whose list is empty, \<^verbatim>\<open>navigate\<close> with any direction sets the
  selected index to 0 and changes nothing else; it has no failing branch, and the d-pad
  handler that calls it returns normally for every hat value.
\<close>

theorem navigate_empty_list:
  "active_len s = Some 0 \<longrightarrow>
     navigate d s = s\<lparr>selected_index := 0\<rparr>
     \<and> selected_index (navigate d s) = 0
     \<and> (\<exists>s'. handle_dpad_motion v s = Inr s')"
proof
  assume a: "active_len s = Some 0"
  then have k: "current_screen s \<noteq> ''keyboard''"
    by (auto simp: active_len_def split: if_splits)
  from a have 1: "navigate d s = s\<lparr>selected_index := 0\<rparr>" by (simp add: navigate_def)
  from k have 3: "\<exists>s'. handle_dpad_motion v s = Inr s'"
    by (cases v) (simp add: handle_dpad_motion_def)
  from 1 3 show "navigate d s = s\<lparr>selected_index := 0\<rparr>
     \<and> selected_index (navigate d s) = 0
     \<and> (\<exists>s'. handle_dpad_motion v s = Inr s')"
    by simp
qed

theorem navigate_empty_list_witness:
  "active_len demo_init = Some 0
   \<and> selected_index (navigate 5 (demo_init\<lparr>selected_index := 3\<rparr>)) = 0"
proof -
  have h: "active_len (demo_init\<lparr>selected_index := 3\<rparr>) = Some 0"
    by (simp add: demo_init_def init_def active_len_def)
  have h': "active_len demo_init = Some 0"
    by (simp add: demo_init_def init_def active_len_def)
  from navigate_empty_list[of "demo_init\<lparr>selected_index := 3\<rparr>" 5, rule_format, OF h]
  have "selected_index (navigate 5 (demo_init\<lparr>selected_index := 3\<rparr>)) = 0" by simp
  with h' show ?thesis by simp
qed

text \<open>
  Claim C10. \<^verbatim>\<open>navigate\<close> treats any integer direction as its clamp to [-1, 1]. If
  the selected index is inside a non-empty list it stays inside; on an empty list it
  becomes 0; on a screen without a list nothing changes. No list is indexed.
\<close>

theorem navigate_any_direction_safe:
  "navigate d s = navigate (max (- 1) (min 1 d)) s
   \<and> (\<forall>n. active_len s = Some n \<and> 0 < n \<and> 0 \<le> selected_index s \<and> selected_index s < int n \<longrightarrow>
         0 \<le> selected_index (navigate d s) \<and> selected_index (navigate d s) < int n)
   \<and> (active_len s = Some 0 \<longrightarrow> selected_index (navigate d s) = 0)
   \<and> (active_len s = None \<longrightarrow> navigate d s = s)"
proof -
  have 1: "navigate d s = navigate (max (- 1) (min 1 d)) s"
    by (simp add: navigate_def Let_def split: option.splits)
  have 2: "\<forall>n. active_len s = Some n \<and> 0 < n \<and> 0 \<le> selected_index s \<and> selected_index s < int n \<longrightarrow>
         0 \<le> selected_index (navigate d s) \<and> selected_index (navigate d s) < int n"
    using navigate_range by blast
  have 3: "active_len s = Some 0 \<longrightarrow> selected_index (navigate d s) = 0"
    by (simp add: navigate_def)
  have 4: "active_len s = None \<longrightarrow> navigate d s = s"
    by (simp add: navigate_def)
  from 1 2 3 4 show ?thesis by (intro conjI)
qed

theorem navigate_any_direction_safe_witness:
  "(active_len demo_menu = Some 4 \<and> (0::nat) < 4 \<and> 0 \<le> selected_index demo_menu
      \<and> selected_index demo_menu < int 4)
   \<and> 0 \<le> selected_index (navigate 1000 demo_menu)
   \<and> selected_index (navigate 1000 demo_menu) < 4
   \<and> 0 \<le> selected_index (navigate (- 1000) demo_menu)
   \<and> selected_index (navigate (- 1000) demo_menu) < 4"
proof -
  have h: "active_len demo_menu = Some 4 \<and> (0::nat) < 4 \<and> 0 \<le> selected_index demo_menu
      \<and> selected_index demo_menu < int 4"
    by (simp add: demo_menu_def demo_init_def init_def active_len_def)
  note a = navigate_any_direction_safe[of 1000 demo_menu, THEN conjunct2, THEN conjunct1, rule_format, OF h]
  note b = navigate_any_direction_safe[of "- 1000" demo_menu, THEN conjunct2, THEN conjunct1, rule_format, OF h]
  from a b have g: "0 \<le> selected_index (navigate 1000 demo_menu)
   \<and> selected_index (navigate 1000 demo_menu) < 4
   \<and> 0 \<le> selected_index (navigate (- 1000) demo_menu)
   \<and> selected_index (navigate (- 1000) demo_menu) < 4"
    by simp
  show ?thesis by (rule conjI[OF h g])
qed

section \<open>Properties of the back-stack\<close>

lemma run_select_push:
  assumes "enters_screen op s"
  shows "screen_stack (run_select op s) = screen_stack s @ [current_screen s]"
    and "current_screen (run_select op s) = target_screen op s"
    and "selected_index (run_select op s) = selected_index s"
  using assms
  by (cases op; auto simp: enters_screen_def run_select_def target_screen_def
        handle_main_menu_select_def handle_search_result_select_def handle_browse_select_def
        load_popular_content_def show_message_def Let_def)+

lemma handle_back_pop:
  "screen_stack s = st @ [c] \<Longrightarrow>
   current_screen (handle_back s) = c \<and> screen_stack (handle_back s) = st"
  by (simp add: handle_back_def)

lemma push_all_back:
  "push_all ops s = Some s' \<Longrightarrow>
   current_screen ((handle_back ^^ length ops) s') = current_screen s
   \<and> screen_stack ((handle_back ^^ length ops) s') = screen_stack s"
proof (induction ops arbitrary: s)
  case Nil
  then show ?case by simp
next
  case (Cons op ops)
  from Cons.prems have e: "enters_screen op s" and p: "push_all ops (run_select op s) = Some s'"
    by (simp_all split: if_splits)
  from Cons.IH[OF p] run_select_push(1)[OF e]
  have "screen_stack ((handle_back ^^ length ops) s') = screen_stack s @ [current_screen s]"
    by simp
  from handle_back_pop[OF this] show ?case by simp
qed


lemma demo_results_fields:
  "current_screen demo_results = ''search_results''"
  "screen_stack demo_results = [''main_menu'']"
  "selected_index demo_results = 0"
  "search_results demo_results = [demo_item]"
  by (simp_all add: demo_results_def search_done_def perform_search_def show_message_def
        handle_main_menu_select_def demo_menu_def demo_init_def init_def Let_def)

lemma demo_menu_tv_fields:
  "current_screen demo_menu_tv = ''main_menu''"
  "screen_stack demo_menu_tv = []"
  "selected_index demo_menu_tv = 1"
  by (simp_all add: demo_menu_tv_def navigate_def active_len_def demo_menu_def demo_init_def
        init_def Let_def)

text \<open>
  Claim C3, as the code has it. A select handler that enters a screen appends the current
  screen to \<^verbatim>\<open>screen_stack\<close> and sets \<^verbatim>\<open>current_screen\<close> to the screen entered;
  \<^verbatim>\<open>selected_index\<close> keeps its value. A handler that does not enter a screen leaves
  the stack and the current screen as they are.
\<close>

theorem select_pushes_screen:
  "(enters_screen op s \<longrightarrow>
      screen_stack (run_select op s) = screen_stack s @ [current_screen s]
      \<and> current_screen (run_select op s) = target_screen op s
      \<and> selected_index (run_select op s) = selected_index s)
   \<and> (\<not> enters_screen op s \<longrightarrow>
      screen_stack (run_select op s) = screen_stack s
      \<and> current_screen (run_select op s) = current_screen s)"
proof (intro conjI impI)
  assume e: "enters_screen op s"
  show "screen_stack (run_select op s) = screen_stack s @ [current_screen s]"
    by (rule run_select_push(1)[OF e])
  show "current_screen (run_select op s) = target_screen op s"
    by (rule run_select_push(2)[OF e])
  show "selected_index (run_select op s) = selected_index s"
    by (rule run_select_push(3)[OF e])
next
  assume n: "\<not> enters_screen op s"
  then show "screen_stack (run_select op s) = screen_stack s"
    by (cases op) (auto simp: enters_screen_def run_select_def handle_main_menu_select_def
          handle_search_result_select_def handle_browse_select_def)
  from n show "current_screen (run_select op s) = current_screen s"
    by (cases op) (auto simp: enters_screen_def run_select_def handle_main_menu_select_def
          handle_search_result_select_def handle_browse_select_def)
qed

theorem select_pushes_screen_witness:
  "enters_screen (MainMenuSelect 1) demo_menu_tv
   \<and> screen_stack (run_select (MainMenuSelect 1) demo_menu_tv) = [''main_menu'']
   \<and> current_screen (run_select (MainMenuSelect 1) demo_menu_tv) = ''keyboard''
   \<and> selected_index (run_select (MainMenuSelect 1) demo_menu_tv) = 1
   \<and> \<not> enters_screen SearchResultSelect demo_menu_tv
   \<and> screen_stack (run_select SearchResultSelect demo_menu_tv) = []"
proof -
  have e: "enters_screen (MainMenuSelect 1) demo_menu_tv"
    by (simp add: enters_screen_def demo_menu_tv_fields)
  have n: "\<not> enters_screen SearchResultSelect demo_menu_tv"
    by (simp add: enters_screen_def demo_menu_tv_def navigate_def active_len_def demo_menu_def
          demo_init_def init_def Let_def)
  note a = select_pushes_screen[of "MainMenuSelect 1" demo_menu_tv, THEN conjunct1, rule_format, OF e]
  note b = select_pushes_screen[of SearchResultSelect demo_menu_tv, THEN conjunct2, rule_format, OF n]
  from a have g: "screen_stack (run_select (MainMenuSelect 1) demo_menu_tv) = [''main_menu'']
   \<and> current_screen (run_select (MainMenuSelect 1) demo_menu_tv) = ''keyboard''
   \<and> selected_index (run_select (MainMenuSelect 1) demo_menu_tv) = 1"
    by (simp add: demo_menu_tv_fields target_screen_def)
  from b have h: "screen_stack (run_select SearchResultSelect demo_menu_tv) = []"
    by (simp add: demo_menu_tv_fields)
  from e g n h show ?thesis by simp
qed

text \<open>
  Claim C3 as stated fails: with the second menu entry selected, Search TV Shows enters the
  keyboard screen and \<^verbatim>\<open>selected_index\<close> is still 1.
\<close>

theorem push_resets_selected_index_counterexample:
  "selected_index demo_menu_tv = 1
   \<and> screen_stack (handle_main_menu_select 1 demo_menu_tv) = [''main_menu'']
   \<and> current_screen (handle_main_menu_select 1 demo_menu_tv) = ''keyboard''
   \<and> selected_index (handle_main_menu_select 1 demo_menu_tv) = 1
   \<and> selected_index (handle_main_menu_select 1 demo_menu_tv) \<noteq> 0"
  by (simp add: handle_main_menu_select_def demo_menu_tv_fields)

text \<open>
  Claim C5, as the code has it. After k select handlers that each enter a screen, k calls
  of \<^verbatim>\<open>handle_back\<close> restore the current screen and the back-stack of the start
  (the empty stack when the start had an empty stack). One \<^verbatim>\<open>handle_back\<close> pops the
  last screen of a non-empty stack into the current screen; with an empty stack it sets
  the current screen to the main menu, and does nothing when it is already there.
\<close>

theorem push_back_roundtrip:
  "(\<forall>ops s'. push_all ops s = Some s' \<longrightarrow>
       current_screen ((handle_back ^^ length ops) s') = current_screen s
       \<and> screen_stack ((handle_back ^^ length ops) s') = screen_stack s)
   \<and> (screen_stack s \<noteq> [] \<longrightarrow>
       handle_back s = s\<lparr>current_screen := last (screen_stack s),
                         screen_stack := butlast (screen_stack s),
                         selected_index := 0\<rparr>)
   \<and> (screen_stack s = [] \<and> current_screen s \<noteq> ''main_menu'' \<longrightarrow>
       handle_back s = s\<lparr>current_screen := ''main_menu'', selected_index := 0\<rparr>)
   \<and> (screen_stack s = [] \<and> current_screen s = ''main_menu'' \<longrightarrow> handle_back s = s)"
proof (intro conjI allI impI)
  fix ops s'
  assume p: "push_all ops s = Some s'"
  from push_all_back[OF p]
  show "current_screen ((handle_back ^^ length ops) s') = current_screen s"
    and "screen_stack ((handle_back ^^ length ops) s') = screen_stack s"
    by simp_all
next
  assume "screen_stack s \<noteq> []"
  then show "handle_back s = s\<lparr>current_screen := last (screen_stack s),
                         screen_stack := butlast (screen_stack s),
                         selected_index := 0\<rparr>"
    by (simp add: handle_back_def)
next
  assume "screen_stack s = [] \<and> current_screen s \<noteq> ''main_menu''"
  then show "handle_back s = s\<lparr>current_screen := ''main_menu'', selected_index := 0\<rparr>"
    by (simp add: handle_back_def)
next
  assume "screen_stack s = [] \<and> current_screen s = ''main_menu''"
  then show "handle_back s = s" by (simp add: handle_back_def)
qed

theorem push_back_roundtrip_witness:
  "push_all [MainMenuSelect 1, BrowseSelect] (demo_menu_tv\<lparr>selected_index := 2, browse_results := [demo_item, demo_item, demo_item]\<rparr>)
     = Some (handle_browse_select (handle_main_menu_select 1
         (demo_menu_tv\<lparr>selected_index := 2, browse_results := [demo_item, demo_item, demo_item]\<rparr>)))
   \<and> current_screen ((handle_back ^^ 2) (handle_browse_select (handle_main_menu_select 1
         (demo_menu_tv\<lparr>selected_index := 2, browse_results := [demo_item, demo_item, demo_item]\<rparr>))))
       = ''main_menu''
   \<and> screen_stack ((handle_back ^^ 2) (handle_browse_select (handle_main_menu_select 1
         (demo_menu_tv\<lparr>selected_index := 2, browse_results := [demo_item, demo_item, demo_item]\<rparr>))))
       = []"
proof -
  let ?s = "demo_menu_tv\<lparr>selected_index := 2, browse_results := [demo_item, demo_item, demo_item]\<rparr>"
  let ?s' = "handle_browse_select (handle_main_menu_select 1 ?s)"
  have p: "push_all [MainMenuSelect 1, BrowseSelect] ?s = Some ?s'"
    by (simp add: enters_screen_def run_select_def handle_main_menu_select_def
          load_popular_content_def show_message_def Let_def)
  have l: "length [MainMenuSelect 1, BrowseSelect] = 2" by simp
  have f: "current_screen ?s = ''main_menu''" "screen_stack ?s = []"
    by (simp_all add: demo_menu_tv_fields)
  note t = push_back_roundtrip[of ?s, THEN conjunct1, rule_format, OF p, unfolded l f]
  show ?thesis by (rule conjI[OF p t])
qed

text \<open>
  Claim C5 as stated fails for a start with a non-empty stack: from the search results
  screen, reached with the main menu on the stack, one push and one back leave the main
  menu on the stack.
\<close>

theorem back_stack_empty_counterexample:
  "screen_stack demo_results = [''main_menu'']
   \<and> push_all [SearchResultSelect] demo_results = Some (handle_search_result_select demo_results)
   \<and> screen_stack (handle_search_result_select demo_results) = [''main_menu'', ''search_results'']
   \<and> current_screen ((handle_back ^^ 1) (handle_search_result_select demo_results)) = ''search_results''
   \<and> screen_stack ((handle_back ^^ 1) (handle_search_result_select demo_results)) = [''main_menu'']
   \<and> screen_stack ((handle_back ^^ 1) (handle_search_result_select demo_results)) \<noteq> []"
  by (simp add: enters_screen_def run_select_def handle_search_result_select_def handle_back_def
        demo_results_fields)

section \<open>Properties of the keyboard cursor\<close>

lemma layout_init_length: "length keyboard_layout_init = 4"
  by (simp add: keyboard_layout_init_def)

lemma layout_init_row:
  assumes "0 \<le> r" and "r < 4"
  shows "length (keyboard_layout_init ! nat r) = 10"
proof -
  have "\<forall>row\<in>set keyboard_layout_init. length row = 10"
    by (simp add: keyboard_layout_init_def)
  moreover from assms have "keyboard_layout_init ! nat r \<in> set keyboard_layout_init"
    by (intro nth_mem) (simp add: layout_init_length)
  ultimately show ?thesis by blast
qed

lemma cursor_valid_init:
  assumes "keyboard_layout s = keyboard_layout_init"
  shows "cursor_valid s \<longleftrightarrow>
           0 \<le> keyboard_row s \<and> keyboard_row s < 4 \<and> 0 \<le> keyboard_col s \<and> keyboard_col s < 10"
proof (cases "0 \<le> keyboard_row s \<and> keyboard_row s < 4")
  case True
  with assms layout_init_row[of "keyboard_row s"] show ?thesis
    by (simp add: cursor_valid_def layout_init_length)
next
  case False
  with assms show ?thesis by (auto simp: cursor_valid_def layout_init_length)
qed

lemma keyboard_right_init:
  assumes "keyboard_layout s = keyboard_layout_init" and "0 \<le> keyboard_row s" and "keyboard_row s < 4"
  shows "keyboard_right s = Inr (s\<lparr>keyboard_col := min 9 (keyboard_col s + 1)\<rparr>)"
  using assms layout_init_row[of "keyboard_row s"]
  by (simp add: keyboard_right_def py_index_def layout_init_length)

lemma dpad_keyboard_init:
  assumes l: "keyboard_layout s = keyboard_layout_init" and k: "current_screen s = ''keyboard''"
    and v: "cursor_valid s"
  shows "handle_dpad_motion (x, y) s =
           Inr (s\<lparr>keyboard_row := (if y = 1 then max 0 (keyboard_row s - 1)
                                   else if y = - 1 then min 3 (keyboard_row s + 1)
                                   else keyboard_row s),
                  keyboard_col := (if x = - 1 then max 0 (keyboard_col s - 1)
                                   else if x = 1 then min 9 (keyboard_col s + 1)
                                   else keyboard_col s)\<rparr>)"
proof -
  from v l have r: "0 \<le> keyboard_row s" "keyboard_row s < 4" "0 \<le> keyboard_col s" "keyboard_col s < 10"
    by (simp_all add: cursor_valid_init)
  define s1 where "s1 = (if y = 1 then keyboard_up s else if y = - 1 then keyboard_down s else s)"
  have s1: "s1 = s\<lparr>keyboard_row := (if y = 1 then max 0 (keyboard_row s - 1)
                                   else if y = - 1 then min 3 (keyboard_row s + 1)
                                   else keyboard_row s)\<rparr>"
    using l by (simp add: s1_def keyboard_up_def keyboard_down_def layout_init_length)
  have l1: "keyboard_layout s1 = keyboard_layout_init" using l by (simp add: s1)
  have r1: "0 \<le> keyboard_row s1" "keyboard_row s1 < 4" using r by (auto simp: s1)
  have c1: "keyboard_col s1 = keyboard_col s" by (simp add: s1)
  have "handle_dpad_motion (x, y) s =
          (if x = - 1 then Inr (keyboard_left s1) else if x = 1 then keyboard_right s1 else Inr s1)"
    using k by (simp add: handle_dpad_motion_def s1_def Let_def)
  also have "\<dots> = Inr (s1\<lparr>keyboard_col := (if x = - 1 then max 0 (keyboard_col s - 1)
                                   else if x = 1 then min 9 (keyboard_col s + 1)
                                   else keyboard_col s)\<rparr>)"
    using keyboard_right_init[OF l1 r1] c1 by (simp add: keyboard_left_def)
  finally show ?thesis by (simp add: s1)
qed


lemma dpad_keyboard_preserves:
  assumes l: "keyboard_layout s = keyboard_layout_init" and k: "current_screen s = ''keyboard''"
    and v: "cursor_valid s"
  shows "\<exists>s'. handle_dpad_motion m s = Inr s' \<and> keyboard_layout s' = keyboard_layout_init
           \<and> current_screen s' = ''keyboard'' \<and> cursor_valid s'"
proof -
  obtain x y where m: "m = (x, y)" by (cases m)
  from v l have r: "0 \<le> keyboard_row s" "keyboard_row s < 4" "0 \<le> keyboard_col s" "keyboard_col s < 10"
    by (simp_all add: cursor_valid_init)
  let ?s' = "s\<lparr>keyboard_row := (if y = 1 then max 0 (keyboard_row s - 1)
                                   else if y = - 1 then min 3 (keyboard_row s + 1)
                                   else keyboard_row s),
                  keyboard_col := (if x = - 1 then max 0 (keyboard_col s - 1)
                                   else if x = 1 then min 9 (keyboard_col s + 1)
                                   else keyboard_col s)\<rparr>"
  have l': "keyboard_layout ?s' = keyboard_layout_init" using l by simp
  have "cursor_valid ?s'"
    unfolding cursor_valid_init[OF l'] using r by auto
  with dpad_keyboard_init[OF l k v, of x y] l' k m show ?thesis by simp
qed

lemma dpad_moves_preserve:
  assumes "keyboard_layout s = keyboard_layout_init" and "current_screen s = ''keyboard''"
    and "cursor_valid s"
  shows "\<exists>s'. dpad_moves vs s = Inr s' \<and> cursor_valid s'"
  using assms
proof (induction vs arbitrary: s)
  case Nil
  then show ?case by simp
next
  case (Cons m vs)
  from dpad_keyboard_preserves[OF Cons.prems, of m] obtain s1 where
    s1: "handle_dpad_motion m s = Inr s1" "keyboard_layout s1 = keyboard_layout_init"
      "current_screen s1 = ''keyboard''" "cursor_valid s1"
    by blast
  from Cons.IH[OF s1(2,3,4)] s1(1) show ?case by simp
qed

text \<open>
  Claim C8. On the keyboard screen with the layout of \<^verbatim>\<open>__init__\<close> and a cursor inside
  the grid, a hat motion returns normally; the row becomes max(0, row - 1) going up and
  min(rows - 1, row + 1) going down, the column max(0, col - 1) going left and
  min(length of the row just entered - 1, col + 1) going right, so nothing wraps and the
  cursor is again inside the grid. Hence it is inside the grid after any sequence of hat
  motions.
\<close>

theorem keyboard_cursor_clamped:
  "keyboard_layout s = keyboard_layout_init \<and> current_screen s = ''keyboard'' \<and> cursor_valid s \<longrightarrow>
     (\<forall>x y. \<exists>s'. handle_dpad_motion (x, y) s = Inr s'
        \<and> keyboard_row s' = (if y = 1 then max 0 (keyboard_row s - 1)
                             else if y = - 1 then min (int (length (keyboard_layout s)) - 1) (keyboard_row s + 1)
                             else keyboard_row s)
        \<and> keyboard_col s' = (if x = - 1 then max 0 (keyboard_col s - 1)
                             else if x = 1 then
                               min (int (length (keyboard_layout s ! nat (keyboard_row s'))) - 1)
                                   (keyboard_col s + 1)
                             else keyboard_col s)
        \<and> cursor_valid s')
     \<and> (\<forall>vs. \<exists>s'. dpad_moves vs s = Inr s' \<and> cursor_valid s')"
proof (intro impI, elim conjE)
  assume l: "keyboard_layout s = keyboard_layout_init" and k: "current_screen s = ''keyboard''"
    and v: "cursor_valid s"
  have 1: "\<forall>x y. \<exists>s'. handle_dpad_motion (x, y) s = Inr s'
        \<and> keyboard_row s' = (if y = 1 then max 0 (keyboard_row s - 1)
                             else if y = - 1 then min (int (length (keyboard_layout s)) - 1) (keyboard_row s + 1)
                             else keyboard_row s)
        \<and> keyboard_col s' = (if x = - 1 then max 0 (keyboard_col s - 1)
                             else if x = 1 then
                               min (int (length (keyboard_layout s ! nat (keyboard_row s'))) - 1)
                                   (keyboard_col s + 1)
                             else keyboard_col s)
        \<and> cursor_valid s'"
  proof (intro allI)
    fix x y :: int
    from dpad_keyboard_preserves[OF l k v, of "(x, y)"] obtain s' where
      s': "handle_dpad_motion (x, y) s = Inr s'" "keyboard_layout s' = keyboard_layout_init"
        "cursor_valid s'"
      by blast
    from s'(2,3) have r': "0 \<le> keyboard_row s'" "keyboard_row s' < 4"
      by (simp_all add: cursor_valid_init)
    from s'(1) dpad_keyboard_init[OF l k v, of x y]
    have e: "s' = s\<lparr>keyboard_row := (if y = 1 then max 0 (keyboard_row s - 1)
                                   else if y = - 1 then min 3 (keyboard_row s + 1)
                                   else keyboard_row s),
                  keyboard_col := (if x = - 1 then max 0 (keyboard_col s - 1)
                                   else if x = 1 then min 9 (keyboard_col s + 1)
                                   else keyboard_col s)\<rparr>"
      by simp
    have row: "keyboard_row s' = (if y = 1 then max 0 (keyboard_row s - 1)
                             else if y = - 1 then min (int (length (keyboard_layout s)) - 1) (keyboard_row s + 1)
                             else keyboard_row s)"
      by (subst e) (simp add: l layout_init_length)
    have col0: "keyboard_col s' = (if x = - 1 then max 0 (keyboard_col s - 1)
                                   else if x = 1 then min 9 (keyboard_col s + 1)
                                   else keyboard_col s)"
      by (subst e) simp
    have "int (length (keyboard_layout s ! nat (keyboard_row s'))) - 1 = 9"
      using layout_init_row[OF r'] l by simp
    with col0 have col: "keyboard_col s' = (if x = - 1 then max 0 (keyboard_col s - 1)
                             else if x = 1 then
                               min (int (length (keyboard_layout s ! nat (keyboard_row s'))) - 1)
                                   (keyboard_col s + 1)
                             else keyboard_col s)"
      by simp
    from s'(1) row col s'(3)
    show "\<exists>s'. handle_dpad_motion (x, y) s = Inr s'
        \<and> keyboard_row s' = (if y = 1 then max 0 (keyboard_row s - 1)
                             else if y = - 1 then min (int (length (keyboard_layout s)) - 1) (keyboard_row s + 1)
                             else keyboard_row s)
        \<and> keyboard_col s' = (if x = - 1 then max 0 (keyboard_col s - 1)
                             else if x = 1 then
                               min (int (length (keyboard_layout s ! nat (keyboard_row s'))) - 1)
                                   (keyboard_col s + 1)
                             else keyboard_col s)
        \<and> cursor_valid s'"
      by blast
  qed
  have 2: "\<forall>vs. \<exists>s'. dpad_moves vs s = Inr s' \<and> cursor_valid s'"
    using dpad_moves_preserve[OF l k v] by blast
  from 1 2 show "(\<forall>x y. \<exists>s'. handle_dpad_motion (x, y) s = Inr s'
        \<and> keyboard_row s' = (if y = 1 then max 0 (keyboard_row s - 1)
                             else if y = - 1 then min (int (length (keyboard_layout s)) - 1) (keyboard_row s + 1)
                             else keyboard_row s)
        \<and> keyboard_col s' = (if x = - 1 then max 0 (keyboard_col s - 1)
                             else if x = 1 then
                               min (int (length (keyboard_layout s ! nat (keyboard_row s'))) - 1)
                                   (keyboard_col s + 1)
                             else keyboard_col s)
        \<and> cursor_valid s')
     \<and> (\<forall>vs. \<exists>s'. dpad_moves vs s = Inr s' \<and> cursor_valid s')"
    by (rule conjI)
qed

lemma demo_keyboard_fields:
  "keyboard_layout demo_keyboard = keyboard_layout_init"
  "current_screen demo_keyboard = ''keyboard''"
  "keyboard_row demo_keyboard = 0"
  "keyboard_col demo_keyboard = 0"
  by (simp_all add: demo_keyboard_def handle_main_menu_select_def demo_menu_def demo_init_def init_def)

theorem keyboard_cursor_clamped_witness:
  "(keyboard_layout demo_keyboard = keyboard_layout_init \<and> current_screen demo_keyboard = ''keyboard''
      \<and> cursor_valid demo_keyboard)
   \<and> (\<exists>s'. handle_dpad_motion (- 1, 1) demo_keyboard = Inr s'
         \<and> keyboard_row s' = 0 \<and> keyboard_col s' = 0 \<and> cursor_valid s')
   \<and> (\<exists>s'. dpad_moves (replicate 12 (1, - 1)) demo_keyboard = Inr s' \<and> cursor_valid s')"
proof -
  have h: "keyboard_layout demo_keyboard = keyboard_layout_init \<and> current_screen demo_keyboard = ''keyboard''
      \<and> cursor_valid demo_keyboard"
    by (simp add: demo_keyboard_fields cursor_valid_init)
  note t = keyboard_cursor_clamped[of demo_keyboard, rule_format, OF h]
  from t[THEN conjunct1, rule_format, of "- 1" 1]
  have g1: "\<exists>s'. handle_dpad_motion (- 1, 1) demo_keyboard = Inr s'
         \<and> keyboard_row s' = 0 \<and> keyboard_col s' = 0 \<and> cursor_valid s'"
    by (simp add: demo_keyboard_fields)
  note g2 = t[THEN conjunct2, rule_format, of "replicate 12 (1, - 1)"]
  show ?thesis by (rule conjI[OF h conjI[OF g1 g2]])
qed

section \<open>Properties of the scheduled back navigation\<close>

lemma slot_show_message [simp]:
  "scheduled_back_time (show_message m c d now s) = scheduled_back_time s"
  by (simp add: show_message_def)

lemma slot_navigate [simp]: "scheduled_back_time (navigate d s) = scheduled_back_time s"
  by (simp add: navigate_def Let_def split: option.splits)

lemma slot_handle_back [simp]: "scheduled_back_time (handle_back s) = scheduled_back_time s"
  by (simp add: handle_back_def)

lemma slot_keyboard_moves [simp]:
  "scheduled_back_time (keyboard_up s) = scheduled_back_time s"
  "scheduled_back_time (keyboard_down s) = scheduled_back_time s"
  "scheduled_back_time (keyboard_left s) = scheduled_back_time s"
  by (simp_all add: keyboard_up_def keyboard_down_def keyboard_left_def)

lemma slot_keyboard_right:
  "keyboard_right s = Inr s' \<Longrightarrow> scheduled_back_time s' = scheduled_back_time s"
  by (auto simp: keyboard_right_def Let_def split: sum.splits)

lemma slot_can_navigate [simp]:
  "scheduled_back_time (snd (can_navigate now s)) = scheduled_back_time s"
  by (simp add: can_navigate_def)

lemma slot_if_can_navigate:
  assumes "\<And>s1 s2. scheduled_back_time s1 = scheduled_back_time s \<Longrightarrow> f s1 = Inr s2 \<Longrightarrow>
             scheduled_back_time s2 = scheduled_back_time s"
    and "if_can_navigate now f s = Inr s'"
  shows "scheduled_back_time s' = scheduled_back_time s"
proof (cases "now - last_nav_time s > NAV_DELAY")
  case True
  with assms(2) have "f (s\<lparr>last_nav_time := now\<rparr>) = Inr s'"
    by (simp add: if_can_navigate_def can_navigate_def)
  with assms(1)[of "s\<lparr>last_nav_time := now\<rparr>" s'] show ?thesis by simp
next
  case False
  with assms(2) show ?thesis by (simp add: if_can_navigate_def can_navigate_def)
qed

lemma slot_dpad:
  assumes "handle_dpad_motion v s = Inr s'"
  shows "scheduled_back_time s' = scheduled_back_time s"
proof -
  obtain x y where v: "v = (x, y)" by (cases v)
  let ?s1 = "if y = 1 then keyboard_up s else if y = - 1 then keyboard_down s else s"
  have s1: "scheduled_back_time ?s1 = scheduled_back_time s" by simp
  show ?thesis
  proof (cases "current_screen s = ''keyboard''")
    case True
    with assms v have r: "(if x = - 1 then Inr (keyboard_left ?s1) else if x = 1 then keyboard_right ?s1 else Inr ?s1) = Inr s'"
      by (simp add: handle_dpad_motion_def Let_def)
    show ?thesis
    proof (cases "x = 1")
      case True
      with r have "keyboard_right ?s1 = Inr s'" by simp
      from slot_keyboard_right[OF this] s1 show ?thesis by simp
    next
      case False
      with r have "s' = keyboard_left ?s1 \<or> s' = ?s1" by (auto split: if_splits)
      with s1 show ?thesis by auto
    qed
  next
    case False
    with assms v show ?thesis by (auto simp: handle_dpad_motion_def split: if_splits)
  qed
qed

lemma slot_perform_search [simp]:
  "scheduled_back_time (perform_search q now s) = scheduled_back_time s"
  by (simp add: perform_search_def Let_def)

lemma slot_main_menu [simp]:
  "scheduled_back_time (handle_main_menu_select now s) = scheduled_back_time s"
  by (simp add: handle_main_menu_select_def load_popular_content_def Let_def)

lemma slot_result_select [simp]:
  "scheduled_back_time (handle_search_result_select s) = scheduled_back_time s"
  "scheduled_back_time (handle_browse_select s) = scheduled_back_time s"
  by (simp_all add: handle_search_result_select_def handle_browse_select_def)

lemma slot_keyboard_select:
  "handle_keyboard_select now s = Inr s' \<Longrightarrow> scheduled_back_time s' = scheduled_back_time s"
  by (auto simp: handle_keyboard_select_def split: if_splits sum.splits)

lemma slot_media_detail:
  "handle_media_detail_select a now s = Inr s' \<Longrightarrow>
   scheduled_back_time s' = scheduled_back_time s \<or> scheduled_back_time s' = Some (now + 1.5)"
  by (auto simp: handle_media_detail_select_def Let_def split: option.splits if_splits sum.splits)

lemma slot_select:
  "handle_select a now s = Inr s' \<Longrightarrow>
   scheduled_back_time s' = scheduled_back_time s \<or> scheduled_back_time s' = Some (now + 1.5)"
  using slot_keyboard_select[of now s s'] slot_media_detail[of a now s s']
  by (auto simp: handle_select_def split: if_splits)


lemma slot_if_can_navigate_pure:
  assumes "\<And>s1. scheduled_back_time (g s1) = scheduled_back_time s1"
    and "if_can_navigate now (\<lambda>s. Inr (g s)) s = Inr s'"
  shows "scheduled_back_time s' = scheduled_back_time s"
  using assms(2) assms(1)
  by (intro slot_if_can_navigate[of s "\<lambda>s. Inr (g s)" now s']) auto

lemma slot_keyboard_nav:
  assumes "key = K_UP \<or> key = K_DOWN \<or> key = K_LEFT \<or> key = K_RIGHT"
    and "handle_keyboard a now key s = Inr s'"
  shows "scheduled_back_time s' = scheduled_back_time s"
proof -
  have d: "K_UP \<noteq> K_DOWN" "K_UP \<noteq> K_LEFT" "K_UP \<noteq> K_RIGHT" "K_DOWN \<noteq> K_LEFT"
    "K_DOWN \<noteq> K_RIGHT" "K_LEFT \<noteq> K_RIGHT" "K_UP \<noteq> K_ESCAPE" "K_DOWN \<noteq> K_ESCAPE"
    "K_UP \<noteq> K_RETURN" "K_DOWN \<noteq> K_RETURN" "K_UP \<noteq> K_SPACE" "K_DOWN \<noteq> K_SPACE"
    "K_UP \<noteq> K_BACKSPACE" "K_DOWN \<noteq> K_BACKSPACE"
    by (simp_all add: K_UP_def K_DOWN_def K_LEFT_def K_RIGHT_def K_ESCAPE_def K_RETURN_def
          K_SPACE_def K_BACKSPACE_def)
  have kr: "if_can_navigate now keyboard_right s = Inr s' \<Longrightarrow>
            scheduled_back_time s' = scheduled_back_time s"
    by (rule slot_if_can_navigate[of s keyboard_right now s'])
       (auto dest: slot_keyboard_right)
  show ?thesis
  proof (cases "current_screen s = ''keyboard''")
    case True
    from assms(1) consider "key = K_UP" | "key = K_DOWN" | "key = K_LEFT" | "key = K_RIGHT" by blast
    then show ?thesis
    proof cases
      case 1
      with True assms(2) have "if_can_navigate now (\<lambda>s. Inr (keyboard_up s)) s = Inr s'"
        by (simp add: handle_keyboard_def)
      then show ?thesis by (rule slot_if_can_navigate_pure[rotated]) simp
    next
      case 2
      with True assms(2) d have "if_can_navigate now (\<lambda>s. Inr (keyboard_down s)) s = Inr s'"
        by (simp add: handle_keyboard_def)
      then show ?thesis by (rule slot_if_can_navigate_pure[rotated]) simp
    next
      case 3
      with True assms(2) d have "if_can_navigate now (\<lambda>s. Inr (keyboard_left s)) s = Inr s'"
        by (simp add: handle_keyboard_def)
      then show ?thesis by (rule slot_if_can_navigate_pure[rotated]) simp
    next
      case 4
      with True assms(2) d have "if_can_navigate now keyboard_right s = Inr s'"
        by (simp add: handle_keyboard_def)
      then show ?thesis by (rule kr)
    qed
  next
    case False
    have nk: "key \<noteq> K_ESCAPE" "key \<noteq> K_RETURN" "key \<noteq> K_SPACE" "key \<noteq> K_BACKSPACE"
      using assms(1)
      by (auto simp: K_UP_def K_DOWN_def K_LEFT_def K_RIGHT_def K_ESCAPE_def K_RETURN_def
            K_SPACE_def K_BACKSPACE_def)
    from False nk assms(2)
    have "if_can_navigate now (\<lambda>s. Inr (navigate (- 1) s)) s = Inr s'
          \<or> if_can_navigate now (\<lambda>s. Inr (navigate 1 s)) s = Inr s' \<or> s' = s"
      by (auto simp: handle_keyboard_def split: if_splits)
    then show ?thesis
      by (auto elim: slot_if_can_navigate_pure[rotated])
  qed
qed

lemma slot_keyboard:
  assumes "handle_keyboard a now key s = Inr s'"
  shows "scheduled_back_time s' = scheduled_back_time s \<or> scheduled_back_time s' = Some (now + 1.5)"
proof (cases "key = K_UP \<or> key = K_DOWN \<or> key = K_LEFT \<or> key = K_RIGHT")
  case True
  from slot_keyboard_nav[OF True assms] show ?thesis by simp
next
  case False
  show ?thesis
  proof (cases "current_screen s = ''keyboard''")
    case True
    with False assms have "handle_keyboard_select now s = Inr s' \<or> s' = handle_back s
        \<or> scheduled_back_time s' = scheduled_back_time s"
      by (auto simp: handle_keyboard_def split: if_splits)
    then show ?thesis by (auto dest: slot_keyboard_select)
  next
    case k: False
    with False assms have "handle_select a now s = Inr s' \<or> s' = handle_back s
        \<or> scheduled_back_time s' = scheduled_back_time s"
      by (auto simp: handle_keyboard_def split: if_splits)
    then show ?thesis by (auto dest: slot_select)
  qed
qed

lemma slot_button:
  assumes "handle_button_press cfg a now b s = Inr s'"
  shows "scheduled_back_time s' = scheduled_back_time s \<or> scheduled_back_time s' = Some (now + 1.5)"
  using assms slot_select[of a now s s']
  by (auto simp: handle_button_press_def split: if_splits)

lemma slot_event:
  assumes "handle_event cfg a now ev s = Inr s'"
  shows "scheduled_back_time s' = scheduled_back_time s \<or> scheduled_back_time s' = Some (now + 1.5)"
proof (cases ev)
  case QUIT
  with assms show ?thesis by (auto simp: handle_event_def)
next
  case (JOYBUTTONDOWN b)
  with assms slot_button[of cfg a now b s s'] show ?thesis by (simp add: handle_event_def)
next
  case (JOYHATMOTION v)
  with assms have "if_can_navigate now (handle_dpad_motion v) s = Inr s'"
    by (simp add: handle_event_def)
  then have "scheduled_back_time s' = scheduled_back_time s"
    by (rule slot_if_can_navigate[rotated]) (auto dest: slot_dpad)
  then show ?thesis by simp
next
  case (KEYDOWN key)
  with assms slot_keyboard[of a now key s s'] show ?thesis by (simp add: handle_event_def)
next
  case OtherEvent
  with assms show ?thesis by (auto simp: handle_event_def)
qed

lemma slot_event_nav:
  assumes "is_navigation ev" and "handle_event cfg a now ev s = Inr s'"
  shows "scheduled_back_time s' = scheduled_back_time s"
proof (cases ev)
  case (JOYHATMOTION v)
  with assms have "if_can_navigate now (handle_dpad_motion v) s = Inr s'"
    by (simp add: handle_event_def)
  then show ?thesis
    by (rule slot_if_can_navigate[rotated]) (auto dest: slot_dpad)
next
  case (KEYDOWN key)
  with assms have k: "key = K_UP \<or> key = K_DOWN \<or> key = K_LEFT \<or> key = K_RIGHT"
    and h: "handle_keyboard a now key s = Inr s'"
    by (simp_all add: is_navigation_def handle_event_def)
  from slot_keyboard_nav[OF k h] show ?thesis .
next
  case QUIT
  with assms(1) show ?thesis by (simp add: is_navigation_def)
next
  case (JOYBUTTONDOWN b)
  with assms(1) show ?thesis by (simp add: is_navigation_def)
next
  case OtherEvent
  with assms(1) show ?thesis by (simp add: is_navigation_def)
qed

lemma nav_event_returns:
  assumes "is_navigation ev" and "current_screen s \<noteq> ''keyboard''"
  shows "\<exists>s'. handle_event cfg a now ev s = Inr s'"
proof (cases ev)
  case (JOYHATMOTION v)
  obtain x y where v: "v = (x, y)" by (cases v)
  from assms(2) have "\<And>s1. current_screen s1 = current_screen s \<Longrightarrow> \<exists>s2. handle_dpad_motion v s1 = Inr s2"
    by (simp add: handle_dpad_motion_def v)
  then have "\<exists>s2. handle_dpad_motion v (s\<lparr>last_nav_time := now\<rparr>) = Inr s2" by simp
  with JOYHATMOTION show ?thesis
    by (auto simp: handle_event_def if_can_navigate_def can_navigate_def)
next
  case (KEYDOWN key)
  with assms have k: "key = K_UP \<or> key = K_DOWN \<or> key = K_LEFT \<or> key = K_RIGHT"
    by (simp add: is_navigation_def)
  then have nk: "key \<noteq> K_ESCAPE" "key \<noteq> K_RETURN" "key \<noteq> K_SPACE" "key \<noteq> K_BACKSPACE"
    by (auto simp: K_UP_def K_DOWN_def K_LEFT_def K_RIGHT_def K_ESCAPE_def K_RETURN_def
          K_SPACE_def K_BACKSPACE_def)
  with KEYDOWN assms(2) show ?thesis
    by (auto simp: handle_event_def handle_keyboard_def if_can_navigate_def can_navigate_def)
next
  case QUIT
  with assms(1) show ?thesis by (simp add: is_navigation_def)
next
  case (JOYBUTTONDOWN b)
  with assms(1) show ?thesis by (simp add: is_navigation_def)
next
  case OtherEvent
  with assms(1) show ?thesis by (simp add: is_navigation_def)
qed


lemma handle_input_idle:
  assumes "idle f"
  shows "handle_input cfg a f s = Inr (after_idle_input f s)"
proof -
  from assms have e: "frame_events f = []"
    and y: "\<not> \<bar>y_axis f\<bar> > CONTROLLER_DEADZONE" and x: "\<not> \<bar>x_axis f\<bar> > CONTROLLER_DEADZONE"
    by (simp_all add: idle_def)
  show ?thesis
  proof (cases "joystick s")
    case False
    with e show ?thesis by (simp add: handle_input_def after_idle_input_def)
  next
    case True
    with e have "handle_input cfg a f s = handle_analog_navigation (analog_time f) (y_axis f) (x_axis f) s"
      by (simp add: handle_input_def)
    also from True x y have "\<dots> = Inr (after_idle_input f s)"
      by (simp add: handle_analog_navigation_def can_navigate_def after_idle_input_def Let_def)
    finally show ?thesis .
  qed
qed

lemma after_idle_input_fields [simp]:
  "scheduled_back_time (after_idle_input f s) = scheduled_back_time s"
  "current_screen (after_idle_input f s) = current_screen s"
  "screen_stack (after_idle_input f s) = screen_stack s"
  "selected_index (after_idle_input f s) = selected_index s"
  by (simp_all add: after_idle_input_def)

lemma run_iteration_idle:
  assumes "idle f"
  shows "run_iteration cfg a f s = Inr (check_scheduled (check_time f) (after_idle_input f s))"
  by (simp add: run_iteration_def handle_input_idle[OF assms])

lemma handle_back_nav_only:
  "current_screen (handle_back (s\<lparr>scheduled_back_time := v\<rparr>)) = current_screen (handle_back s)"
  "screen_stack (handle_back (s\<lparr>scheduled_back_time := v\<rparr>)) = screen_stack (handle_back s)"
  "selected_index (handle_back (s\<lparr>scheduled_back_time := v\<rparr>)) = selected_index (handle_back s)"
  "scheduled_back_time (handle_back (s\<lparr>scheduled_back_time := v\<rparr>)) = v"
  by (simp_all add: handle_back_def)

lemma handle_back_after_idle:
  "current_screen (handle_back (after_idle_input f s)) = current_screen (handle_back s)"
  "screen_stack (handle_back (after_idle_input f s)) = screen_stack (handle_back s)"
  "selected_index (handle_back (after_idle_input f s)) = selected_index (handle_back s)"
  by (simp_all add: handle_back_def after_idle_input_def)

lemma submit_sets_slot:
  assumes "submit_succeeds a s"
  shows "handle_media_detail_select a now s =
           Inr ((show_message ''Request submitted successfully!'' (Some COLOR_SUCCESS) 3.0 now s)
                  \<lparr>scheduled_back_time := Some (now + 1.5)\<rparr>)"
  using assms
  by (auto simp: submit_succeeds_def handle_media_detail_select_def Let_def split: option.splits)

lemma submit_succeeds_after:
  "submit_succeeds a ((show_message m c d now s)\<lparr>scheduled_back_time := v\<rparr>) = submit_succeeds a s"
  by (simp add: submit_succeeds_def show_message_def)


lemma slot_analog:
  assumes "handle_analog_navigation now y x s = Inr s'"
  shows "scheduled_back_time s' = scheduled_back_time s"
proof (cases "joystick s \<and> now - last_nav_time s > NAV_DELAY")
  case False
  with assms show ?thesis
    by (auto simp: handle_analog_navigation_def can_navigate_def split: if_splits)
next
  case True
  let ?s0 = "s\<lparr>last_nav_time := now\<rparr>"
  let ?s1 = "if \<bar>y\<bar> > CONTROLLER_DEADZONE
             then (if y < 0 then keyboard_up ?s0 else keyboard_down ?s0) else ?s0"
  have s1: "scheduled_back_time ?s1 = scheduled_back_time s" by simp
  show ?thesis
  proof (cases "current_screen s = ''keyboard''")
    case k: True
    with True assms have r: "(if \<bar>x\<bar> > CONTROLLER_DEADZONE
               then (if x < 0 then Inr (keyboard_left ?s1) else keyboard_right ?s1)
               else Inr ?s1) = Inr s'"
      by (simp add: handle_analog_navigation_def can_navigate_def Let_def)
    show ?thesis
    proof (cases "\<bar>x\<bar> > CONTROLLER_DEADZONE \<and> \<not> x < 0")
      case True
      then have c: "\<bar>x\<bar> > CONTROLLER_DEADZONE" "\<not> x < 0" by blast+
      from r have "keyboard_right ?s1 = Inr s'" by (simp only: c if_True if_False)
      from slot_keyboard_right[OF this] s1 show ?thesis by simp
    next
      case False
      then consider "\<not> \<bar>x\<bar> > CONTROLLER_DEADZONE" | "\<bar>x\<bar> > CONTROLLER_DEADZONE" "x < 0"
        by blast
      then have "s' = keyboard_left ?s1 \<or> s' = ?s1"
      proof cases
        case 1
        from r have "Inr ?s1 = (Inr s' :: py_error + ui)" by (simp only: 1 if_False)
        then show ?thesis by (simp only: sum.inject) simp
      next
        case 2
        from r have "Inr (keyboard_left ?s1) = (Inr s' :: py_error + ui)"
          by (simp only: 2 if_True)
        then show ?thesis by (simp only: sum.inject) simp
      qed
      with s1 show ?thesis by auto
    qed
  next
    case k: False
    with True assms show ?thesis
      by (auto simp: handle_analog_navigation_def can_navigate_def split: if_splits)
  qed
qed

lemma slot_events_nav:
  "all_navigation evs \<Longrightarrow> handle_events cfg a evs s = Inr s' \<Longrightarrow>
   scheduled_back_time s' = scheduled_back_time s"
proof (induction evs arbitrary: s)
  case Nil
  then show ?case by simp
next
  case (Cons p evs)
  obtain t ev where p: "p = (t, ev)" by (cases p)
  from Cons.prems(1) p have n: "is_navigation ev" and r: "all_navigation evs"
    by (simp_all add: all_navigation_def)
  from Cons.prems(2) p obtain s1 where s1: "handle_event cfg a t ev s = Inr s1"
    and rest: "handle_events cfg a evs s1 = Inr s'"
    by (auto split: sum.splits)
  from slot_event_nav[OF n s1] Cons.IH[OF r rest] show ?case by simp
qed

lemma slot_input_nav:
  assumes "all_navigation (frame_events f)" and "handle_input cfg a f s = Inr s'"
  shows "scheduled_back_time s' = scheduled_back_time s"
proof -
  from assms(2) obtain s1 where s1: "handle_events cfg a (frame_events f) s = Inr s1"
    and r: "(if joystick s1 then handle_analog_navigation (analog_time f) (y_axis f) (x_axis f) s1
             else Inr s1) = Inr s'"
    by (auto simp: handle_input_def split: sum.splits)
  from r have "scheduled_back_time s' = scheduled_back_time s1"
    by (auto split: if_splits dest: slot_analog)
  with slot_events_nav[OF assms(1) s1] show ?thesis by simp
qed

lemma run_iteration_fires:
  assumes "handle_input cfg a f s = Inr s1" and "scheduled_back_time s1 = Some T"
    and "T \<noteq> 0" and "T \<le> check_time f"
  shows "run_iteration cfg a f s = Inr (handle_back (s1\<lparr>scheduled_back_time := None\<rparr>))"
  using assms by (simp add: run_iteration_def check_scheduled_def)

text \<open>
  Claim C9. \<^verbatim>\<open>scheduled_back_time\<close> is one optional timestamp. A successful request
  sets it to the clock reading plus 1.5 together with the success message, whatever it held
  before, so a second success overwrites the first. No input event clears it: an event
  leaves it as it is or, being a new successful request, sets it again; hat motions and
  arrow keys leave it as it is, and off the keyboard screen they always return. An idle
  iteration before the deadline leaves slot, screen and stack alone. An idle iteration at
  or after the deadline (the slot not being 0.0, which Python treats as unset) clears the
  slot and does what one \<^verbatim>\<open>handle_back\<close> does; the idle iteration after that
  changes neither screen nor stack. An iteration whose queued events are all hat motions
  or arrow keys leaves the slot to the check, and in any iteration whose input leaves a due
  slot the check clears it and runs one \<^verbatim>\<open>handle_back\<close>.
\<close>

theorem deferred_back_slot:
  "(\<forall>now. submit_succeeds a s \<longrightarrow>
      (\<exists>s'. handle_media_detail_select a now s = Inr s'
         \<and> scheduled_back_time s' = Some (now + 1.5)
         \<and> message s' = Some ''Request submitted successfully!''
         \<and> message_time s' = now + 3
         \<and> (\<forall>now2. \<exists>s2. handle_media_detail_select a now2 s' = Inr s2
                \<and> scheduled_back_time s2 = Some (now2 + 1.5))))
   \<and> (\<forall>now ev s'. handle_event cfg a now ev s = Inr s' \<longrightarrow>
         scheduled_back_time s' = scheduled_back_time s
         \<or> scheduled_back_time s' = Some (now + 1.5))
   \<and> (\<forall>now ev s'. is_navigation ev \<and> handle_event cfg a now ev s = Inr s' \<longrightarrow>
         scheduled_back_time s' = scheduled_back_time s)
   \<and> (\<forall>now ev. is_navigation ev \<and> current_screen s \<noteq> ''keyboard'' \<longrightarrow>
         (\<exists>s'. handle_event cfg a now ev s = Inr s'))
   \<and> (\<forall>f T. idle f \<and> scheduled_back_time s = Some T \<and> check_time f < T \<longrightarrow>
         (\<exists>s'. run_iteration cfg a f s = Inr s' \<and> scheduled_back_time s' = Some T
            \<and> current_screen s' = current_screen s \<and> screen_stack s' = screen_stack s))
   \<and> (\<forall>f f' T. idle f \<and> idle f' \<and> scheduled_back_time s = Some T \<and> T \<noteq> 0 \<and> T \<le> check_time f \<longrightarrow>
         (\<exists>s1 s2. run_iteration cfg a f s = Inr s1 \<and> scheduled_back_time s1 = None
            \<and> current_screen s1 = current_screen (handle_back s)
            \<and> screen_stack s1 = screen_stack (handle_back s)
            \<and> selected_index s1 = selected_index (handle_back s)
            \<and> run_iteration cfg a f' s1 = Inr s2 \<and> scheduled_back_time s2 = None
            \<and> current_screen s2 = current_screen s1 \<and> screen_stack s2 = screen_stack s1))
   \<and> (\<forall>f s1. all_navigation (frame_events f) \<and> handle_input cfg a f s = Inr s1 \<longrightarrow>
         scheduled_back_time s1 = scheduled_back_time s)
   \<and> (\<forall>f s1 T. handle_input cfg a f s = Inr s1 \<and> scheduled_back_time s1 = Some T
          \<and> T \<noteq> 0 \<and> T \<le> check_time f \<longrightarrow>
         run_iteration cfg a f s = Inr (handle_back (s1\<lparr>scheduled_back_time := None\<rparr>)))"
proof (intro conjI allI impI)
  fix now
  assume ok: "submit_succeeds a s"
  let ?s' = "(show_message ''Request submitted successfully!'' (Some COLOR_SUCCESS) 3.0 now s)
                  \<lparr>scheduled_back_time := Some (now + 1.5)\<rparr>"
  have 1: "handle_media_detail_select a now s = Inr ?s'" by (rule submit_sets_slot[OF ok])
  have ok': "submit_succeeds a ?s'" using ok by (simp only: submit_succeeds_after)
  have 2: "\<forall>now2. \<exists>s2. handle_media_detail_select a now2 ?s' = Inr s2
                \<and> scheduled_back_time s2 = Some (now2 + 1.5)"
    using submit_sets_slot[OF ok'] by simp
  have 3: "scheduled_back_time ?s' = Some (now + 1.5)"
    "message ?s' = Some ''Request submitted successfully!''" "message_time ?s' = now + 3"
    by (simp_all add: show_message_def)
  from 1 2 3 show "\<exists>s'. handle_media_detail_select a now s = Inr s'
         \<and> scheduled_back_time s' = Some (now + 1.5)
         \<and> message s' = Some ''Request submitted successfully!''
         \<and> message_time s' = now + 3
         \<and> (\<forall>now2. \<exists>s2. handle_media_detail_select a now2 s' = Inr s2
                \<and> scheduled_back_time s2 = Some (now2 + 1.5))"
    by blast
next
  fix now ev s'
  assume "handle_event cfg a now ev s = Inr s'"
  then show "scheduled_back_time s' = scheduled_back_time s
         \<or> scheduled_back_time s' = Some (now + 1.5)"
    by (rule slot_event)
next
  fix now ev s'
  assume "is_navigation ev \<and> handle_event cfg a now ev s = Inr s'"
  then show "scheduled_back_time s' = scheduled_back_time s"
    using slot_event_nav by blast
next
  fix now ev
  assume "is_navigation ev \<and> current_screen s \<noteq> ''keyboard''"
  then show "\<exists>s'. handle_event cfg a now ev s = Inr s'"
    using nav_event_returns by blast
next
  fix f T
  assume a: "idle f \<and> scheduled_back_time s = Some T \<and> check_time f < T"
  then have i: "idle f" by simp
  from a have "check_scheduled (check_time f) (after_idle_input f s) = after_idle_input f s"
    by (simp add: check_scheduled_def)
  with run_iteration_idle[OF i, of cfg a s] a
  show "\<exists>s'. run_iteration cfg a f s = Inr s' \<and> scheduled_back_time s' = Some T
            \<and> current_screen s' = current_screen s \<and> screen_stack s' = screen_stack s"
    by simp
next
  fix f f' T
  assume a: "idle f \<and> idle f' \<and> scheduled_back_time s = Some T \<and> T \<noteq> 0 \<and> T \<le> check_time f"
  then have i: "idle f" and i': "idle f'" by simp_all
  let ?s1 = "handle_back ((after_idle_input f s)\<lparr>scheduled_back_time := None\<rparr>)"
  from a have c: "check_scheduled (check_time f) (after_idle_input f s) = ?s1"
    by (simp add: check_scheduled_def)
  have r1: "run_iteration cfg a f s = Inr ?s1"
    by (simp only: run_iteration_idle[OF i] c)
  have n1: "scheduled_back_time ?s1 = None" by (simp only: handle_back_nav_only)
  have f1: "current_screen ?s1 = current_screen (handle_back s)"
    "screen_stack ?s1 = screen_stack (handle_back s)"
    "selected_index ?s1 = selected_index (handle_back s)"
    by (simp_all only: handle_back_nav_only handle_back_after_idle)
  let ?s2 = "after_idle_input f' ?s1"
  from n1 have "check_scheduled (check_time f') ?s2 = ?s2"
    by (simp add: check_scheduled_def)
  then have r2: "run_iteration cfg a f' ?s1 = Inr ?s2"
    by (simp only: run_iteration_idle[OF i'])
  have f2: "scheduled_back_time ?s2 = None" "current_screen ?s2 = current_screen ?s1"
    "screen_stack ?s2 = screen_stack ?s1"
    using n1 by (simp_all only: after_idle_input_fields)
  from r1 n1 f1 r2 f2
  show "\<exists>s1 s2. run_iteration cfg a f s = Inr s1 \<and> scheduled_back_time s1 = None
            \<and> current_screen s1 = current_screen (handle_back s)
            \<and> screen_stack s1 = screen_stack (handle_back s)
            \<and> selected_index s1 = selected_index (handle_back s)
            \<and> run_iteration cfg a f' s1 = Inr s2 \<and> scheduled_back_time s2 = None
            \<and> current_screen s2 = current_screen s1 \<and> screen_stack s2 = screen_stack s1"
    by blast
next
  fix f s1
  assume "all_navigation (frame_events f) \<and> handle_input cfg a f s = Inr s1"
  then show "scheduled_back_time s1 = scheduled_back_time s"
    using slot_input_nav by blast
next
  fix f s1 T
  assume "handle_input cfg a f s = Inr s1 \<and> scheduled_back_time s1 = Some T
          \<and> T \<noteq> 0 \<and> T \<le> check_time f"
  then show "run_iteration cfg a f s = Inr (handle_back (s1\<lparr>scheduled_back_time := None\<rparr>))"
    using run_iteration_fires by blast
qed

lemma demo_detail_fields:
  "current_screen demo_detail = ''media_detail''"
  "screen_stack demo_detail = [''main_menu'', ''search_results'']"
  "selected_media demo_detail = Some demo_item"
  by (simp_all add: demo_detail_def handle_search_result_select_def demo_results_fields)

lemma demo_submitted_fields:
  "current_screen demo_submitted = ''media_detail''"
  "screen_stack demo_submitted = [''main_menu'', ''search_results'']"
  "scheduled_back_time demo_submitted = Some (203 / 2)"
  by (simp_all add: demo_submitted_def show_message_def demo_detail_fields)

theorem deferred_back_slot_witness:
  "submit_succeeds demo_api demo_detail
   \<and> (\<exists>s'. handle_media_detail_select demo_api 100 demo_detail = Inr s'
         \<and> scheduled_back_time s' = Some (203 / 2))
   \<and> (is_navigation (JOYHATMOTION (0, 1)) \<and> current_screen demo_submitted \<noteq> ''keyboard'')
   \<and> (\<exists>s'. handle_event demo_buttons demo_api 101 (JOYHATMOTION (0, 1)) demo_submitted = Inr s')
   \<and> (idle (demo_idle 101) \<and> scheduled_back_time demo_submitted = Some (203 / 2)
        \<and> check_time (demo_idle 101) < 203 / 2)
   \<and> (\<exists>s'. run_iteration demo_buttons demo_api (demo_idle 101) demo_submitted = Inr s'
         \<and> scheduled_back_time s' = Some (203 / 2) \<and> current_screen s' = ''media_detail'')
   \<and> (idle (demo_idle 102) \<and> idle (demo_idle 103) \<and> (203 / 2 :: real) \<noteq> 0
        \<and> 203 / 2 \<le> check_time (demo_idle 102))
   \<and> (\<exists>s1 s2. run_iteration demo_buttons demo_api (demo_idle 102) demo_submitted = Inr s1
         \<and> scheduled_back_time s1 = None \<and> current_screen s1 = ''search_results''
         \<and> screen_stack s1 = [''main_menu'']
         \<and> run_iteration demo_buttons demo_api (demo_idle 103) s1 = Inr s2
         \<and> scheduled_back_time s2 = None \<and> current_screen s2 = ''search_results''
         \<and> screen_stack s2 = [''main_menu''])"
proof -
  have ok: "submit_succeeds demo_api demo_detail"
    by (simp add: submit_succeeds_def demo_detail_fields demo_item_def demo_api_def)
  have nav: "is_navigation (JOYHATMOTION (0, 1)) \<and> current_screen demo_submitted \<noteq> ''keyboard''"
    by (simp add: is_navigation_def demo_submitted_fields)
  have i: "\<And>t. idle (demo_idle t)"
    by (simp add: idle_def demo_idle_def CONTROLLER_DEADZONE_def)
  have h5: "idle (demo_idle 101) \<and> scheduled_back_time demo_submitted = Some (203 / 2)
        \<and> check_time (demo_idle 101) < 203 / 2"
    using i by (simp add: demo_submitted_fields demo_idle_def)
  have h6: "idle (demo_idle 102) \<and> idle (demo_idle 103)
        \<and> scheduled_back_time demo_submitted = Some (203 / 2) \<and> (203 / 2 :: real) \<noteq> 0
        \<and> 203 / 2 \<le> check_time (demo_idle 102)"
    using i by (simp add: demo_submitted_fields demo_idle_def)
  have h6': "idle (demo_idle 102) \<and> idle (demo_idle 103) \<and> (203 / 2 :: real) \<noteq> 0
        \<and> 203 / 2 \<le> check_time (demo_idle 102)"
    using h6 by simp
  have b: "current_screen (handle_back demo_submitted) = ''search_results''"
    "screen_stack (handle_back demo_submitted) = [''main_menu'']"
    by (simp_all add: handle_back_def demo_submitted_fields)
  note t1 = deferred_back_slot[of demo_api demo_detail demo_buttons]
  note t2 = deferred_back_slot[of demo_api demo_submitted demo_buttons]
  from t1[THEN conjunct1, rule_format, OF ok, of 100]
  have g1: "\<exists>s'. handle_media_detail_select demo_api 100 demo_detail = Inr s'
         \<and> scheduled_back_time s' = Some (203 / 2)"
    by auto
  note g4 = t2[THEN conjunct2, THEN conjunct2, THEN conjunct2, THEN conjunct1, rule_format, OF nav, of 101]
  from t2[THEN conjunct2, THEN conjunct2, THEN conjunct2, THEN conjunct2, THEN conjunct1,
          rule_format, OF h5]
  have g5: "\<exists>s'. run_iteration demo_buttons demo_api (demo_idle 101) demo_submitted = Inr s'
         \<and> scheduled_back_time s' = Some (203 / 2) \<and> current_screen s' = ''media_detail''"
    by (auto simp: demo_submitted_fields)
  from t2[THEN conjunct2, THEN conjunct2, THEN conjunct2, THEN conjunct2, THEN conjunct2,
          THEN conjunct1, rule_format, OF h6]
  have g6: "\<exists>s1 s2. run_iteration demo_buttons demo_api (demo_idle 102) demo_submitted = Inr s1
         \<and> scheduled_back_time s1 = None \<and> current_screen s1 = ''search_results''
         \<and> screen_stack s1 = [''main_menu'']
         \<and> run_iteration demo_buttons demo_api (demo_idle 103) s1 = Inr s2
         \<and> scheduled_back_time s2 = None \<and> current_screen s2 = ''search_results''
         \<and> screen_stack s2 = [''main_menu'']"
    unfolding b by metis
  show ?thesis
    by (rule conjI[OF ok conjI[OF g1 conjI[OF nav conjI[OF g4 conjI[OF h5 conjI[OF g5 conjI[OF h6' g6]]]]]]])
qed

section \<open>Properties of the background search\<close>

lemma search_done_results:
  assumes "r \<noteq> []"
  shows "search_results (search_done q (Inr (Some r)) now s) = r"
    and "current_screen (search_done q (Inr (Some r)) now s) = ''search_results''"
    and "selected_index (search_done q (Inr (Some r)) now s) = 0"
    and "message (search_done q (Inr (Some r)) now s) = None"
  using assms by (simp_all add: search_done_def Let_def)

lemma search_done_no_results:
  assumes "r = Inl e \<or> r = Inr None \<or> r = Inr (Some [])"
  shows "search_results (search_done q r now s) = search_results s"
    and "current_screen (search_done q r now s) = current_screen s"
  using assms by (auto simp: search_done_def show_message_def Let_def)

lemma perform_search_threads:
  "threads (perform_search q now s) = threads s @ [PerformSearch q]"
  "search_results (perform_search q now s) = search_results s"
  "current_screen (perform_search q now s) = current_screen s"
  by (simp_all add: perform_search_def show_message_def Let_def)

text \<open>
  Claim C2, as the code has it. \<^verbatim>\<open>perform_search\<close> starts a thread and keeps no
  identifier of it; two calls leave two threads running. A thread that ends with a
  non-empty result writes it into \<^verbatim>\<open>search_results\<close>, enters the results screen and
  selects item 0, whatever the state; one that ends with an exception, \<^verbatim>\<open>None\<close> or no
  items leaves \<^verbatim>\<open>search_results\<close> alone. So of two threads the one that ends last
  with a non-empty result decides \<^verbatim>\<open>search_results\<close>, whichever was started first.
\<close>

theorem search_last_completion_wins:
  "threads (perform_search q2 t2 (perform_search q1 t1 s))
     = threads s @ [PerformSearch q1, PerformSearch q2]
   \<and> (\<forall>q r now. r \<noteq> [] \<longrightarrow>
         search_results (search_done q (Inr (Some r)) now s) = r
         \<and> current_screen (search_done q (Inr (Some r)) now s) = ''search_results''
         \<and> selected_index (search_done q (Inr (Some r)) now s) = 0
         \<and> message (search_done q (Inr (Some r)) now s) = None)
   \<and> (\<forall>q e now.
         search_results (search_done q (Inl e) now s) = search_results s
         \<and> search_results (search_done q (Inr None) now s) = search_results s
         \<and> search_results (search_done q (Inr (Some [])) now s) = search_results s)
   \<and> (\<forall>qa qb ra rb ta tb. ra \<noteq> [] \<longrightarrow>
         search_results (search_done qa (Inr (Some ra)) ta (search_done qb rb tb s)) = ra)"
proof (intro conjI allI impI)
  show "threads (perform_search q2 t2 (perform_search q1 t1 s))
     = threads s @ [PerformSearch q1, PerformSearch q2]"
    by (simp add: perform_search_threads)
next
  fix q r now
  assume r: "r \<noteq> ([] :: media list)"
  show "search_results (search_done q (Inr (Some r)) now s) = r"
    and "current_screen (search_done q (Inr (Some r)) now s) = ''search_results''"
    and "selected_index (search_done q (Inr (Some r)) now s) = 0"
    and "message (search_done q (Inr (Some r)) now s) = None"
    by (simp_all only: search_done_results[OF r])
next
  fix q e now
  show "search_results (search_done q (Inl e) now s) = search_results s"
    and "search_results (search_done q (Inr None) now s) = search_results s"
    and "search_results (search_done q (Inr (Some [])) now s) = search_results s"
    by (simp_all add: search_done_no_results)
next
  fix qa qb ra rb ta tb
  assume r: "ra \<noteq> ([] :: media list)"
  show "search_results (search_done qa (Inr (Some ra)) ta (search_done qb rb tb s)) = ra"
    by (rule search_done_results(1)[OF r])
qed

theorem search_last_completion_wins_witness:
  "[demo_item] \<noteq> []
   \<and> search_results (search_done ''a'' (Inr (Some [demo_item])) 4 demo_two_searches) = [demo_item]
   \<and> current_screen (search_done ''a'' (Inr (Some [demo_item])) 4 demo_two_searches) = ''search_results''
   \<and> search_results (search_done ''a'' (Inr (Some [demo_item])) 4
        (search_done ''bb'' (Inr (Some [[(''title'', JStr ''bb'')]])) 3 demo_two_searches)) = [demo_item]"
proof -
  have n: "[demo_item] \<noteq> []" by simp
  note t = search_last_completion_wins[of "''bb''" 2 "''a''" 1 demo_two_searches]
  note a = t[THEN conjunct2, THEN conjunct1, rule_format, OF n, of "''a''" 4]
  note c = t[THEN conjunct2, THEN conjunct2, THEN conjunct2, rule_format, OF n,
             of "''a''" 4 "''bb''" "Inr (Some [[(''title'', JStr ''bb'')]])" 3]
  show ?thesis
    by (rule conjI[OF n conjI[OF a[THEN conjunct1] conjI[OF a[THEN conjunct2, THEN conjunct1] c]]])
qed

lemma search_in_background_movie:
  assumes "browse_type begun = Some ''movie''" and "search_movies a q = Inr (Some r)"
    and "r \<noteq> []"
  shows "search_results (search_in_background a q begun now s) = r"
  using assms by (simp add: search_in_background_def search_call_def search_done_def Let_def)

text \<open>
  Claim C2 as stated fails: the search for \<open>''a''\<close> is started first and the search for
  \<open>''bb''\<close> second; the second thread ends first and the first thread after it, and the
  results shown are those of the first search.
\<close>

theorem stale_search_discarded_counterexample:
  "threads demo_two_searches = [PerformSearch ''a'', PerformSearch ''bb'']
   \<and> search_results (search_in_background demo_search_api ''bb'' demo_two_searches 3 demo_two_searches)
        = [[(''id'', JInt 2), (''title'', JStr ''bb'')]]
   \<and> search_results demo_after_race = [[(''id'', JInt 1), (''title'', JStr ''a'')]]
   \<and> search_results demo_after_race
        \<noteq> search_results
            (search_in_background demo_search_api ''bb'' demo_two_searches 3 demo_two_searches)"
proof -
  have m: "\<And>q. search_movies demo_search_api q = Inr (Some [[(''id'', JInt (int (length q))), (''title'', JStr q)]])"
    by (simp add: demo_search_api_def)
  have k: "threads demo_keyboard = []" "browse_type demo_keyboard = Some ''movie''"
    by (simp_all add: demo_keyboard_def handle_main_menu_select_def demo_menu_def demo_init_def init_def)
  have 1: "threads demo_two_searches = [PerformSearch ''a'', PerformSearch ''bb'']"
    by (simp add: demo_two_searches_def demo_first_search_def perform_search_threads k)
  have bt1: "browse_type demo_first_search = Some ''movie''"
    by (simp add: demo_first_search_def perform_search_def show_message_def Let_def k)
  have bt2: "browse_type demo_two_searches = Some ''movie''"
    by (simp add: demo_two_searches_def perform_search_def show_message_def Let_def bt1)
  from search_in_background_movie[OF bt2 m, of "''bb''" 3 demo_two_searches]
  have 2: "search_results (search_in_background demo_search_api ''bb'' demo_two_searches 3 demo_two_searches)
        = [[(''id'', JInt 2), (''title'', JStr ''bb'')]]"
    by simp
  from search_in_background_movie[OF bt1 m, of "''a''" 4]
  have 3: "search_results demo_after_race = [[(''id'', JInt 1), (''title'', JStr ''a'')]]"
    by (simp add: demo_after_race_def)
  have 4: "search_results demo_after_race
        \<noteq> search_results
            (search_in_background demo_search_api ''bb'' demo_two_searches 3 demo_two_searches)"
    by (simp only: 2 3) simp
  show ?thesis by (rule conjI[OF 1 conjI[OF 2 conjI[OF 3 4]]])
qed

end
